theory Spec2Isabelle
  imports Complex_Main "HOL-Library.AList" "HOL-Library.Multiset"
begin

section \<open>StreamSaver: staged chunk upload, ordered merge and live append (server.js)\<close>

text \<open>
  The server keeps two in-memory maps (\<open>sessions\<close>, \<open>liveStreams\<close>) and two directories
  (\<open>uploads/tmp\<close>, \<open>uploads/final\<close>). Every request handler is embedded as a function
  from the world before the request to the handler's outcome and the world after it.
  What the handler takes from its environment is a parameter: the value of
  \<open>Date.now()\<close>, the identifier drawn by \<open>crypto.randomUUID()\<close>, and whether the
  output stream reports an error.
  No writer is given an \<open>'error'\<close> listener, so an error of an output stream ends the
  server process: the two maps are lost, the directories stay. A handler that ends so
  returns the world of that moment; \<open>handle\<close> gives the world a server started again
  begins with.
  In a run, a handler goes to its end before the next request is looked at. The chunk
  handler is also given in two pieces, cut at its \<open>await mergeChunks(session)\<close>, for
  requests that are in flight together.
\<close>

subsection \<open>Values\<close>

text \<open>
  A JavaScript number as \<open>Number(x)\<close> returns it: \<open>NaN\<close> or a finite value. Every finite
  double is a rational, so \<open>rat\<close> covers integer and fractional indices alike
  (\<open>Infinity\<close> is left out). \<open>js_nat n\<close> is the number with the value of the array
  length \<open>n\<close>.
\<close>

datatype jsnum = NaN | Num rat

definition js_nat :: "nat \<Rightarrow> jsnum" where
  "js_nat n = Num (of_nat n)"

text \<open>\<open>a < b\<close> on numbers: false as soon as one side is \<open>NaN\<close>.\<close>

fun js_less :: "jsnum \<Rightarrow> jsnum \<Rightarrow> bool" where
  "js_less (Num a) (Num b) = (a < b)"
| "js_less _ _ = False"

text \<open>A \<open>Buffer\<close> is a sequence of bytes; a \<open>char\<close> of HOL is one byte.\<close>

type_synonym bytes = "char list"

subsection \<open>safeName and the artifact name\<close>

definition safe_char :: "char \<Rightarrow> bool" where
  "safe_char c \<longleftrightarrow>
     c \<in> set ''abcdefghijklmnopqrstuvwxyzABCDEFGHIJKLMNOPQRSTUVWXYZ0123456789._-''"

text \<open>\<open>(name || 'video.bin').replace(/[^a-zA-Z0-9._-]/g, '_')\<close>\<close>

definition safeName :: "string \<Rightarrow> string" where
  "safeName name =
     map (\<lambda>c. if safe_char c then c else CHR ''_'')
         (if name = [] then ''video.bin'' else name)"

text \<open>The decimal digits of a non-negative integer, as a template literal prints it.\<close>

definition digit_char :: "nat \<Rightarrow> char" where
  "digit_char d = ''0123456789'' ! d"

fun show_nat :: "nat \<Rightarrow> string" where
  "show_nat n =
     (if n < 10 then [digit_char n]
      else show_nat (n div 10) @ [digit_char (n mod 10)])"

declare show_nat.simps [simp del]

text \<open>\<open>`${Date.now()}-${safeName(name)}`\<close>\<close>

definition artifactName :: "nat \<Rightarrow> string \<Rightarrow> string" where
  "artifactName now name = show_nat now @ ''-'' @ safeName name"

subsection \<open>State\<close>

text \<open>The session object built by \<open>POST /api/uploads/init\<close>.\<close>

record session =
  uploadId :: string
  originalName :: string
  totalSize :: jsnum
  totalChunks :: jsnum
  mimeType :: string
  createdAt :: nat
  receivedChunks :: "rat list"

text \<open>
  The directory \<open>uploads/tmp/<uploadId>\<close>: \<open>meta.json\<close> (absent or holding a session;
  \<open>JSON.parse\<close> of \<open>JSON.stringify\<close> gives the session back) and the files
  \<open>chunk-<i>.part\<close>, keyed by the number \<open>i\<close> (two numbers print alike only when they
  are equal). An upload id names its own directory: ids are read as plain directory
  names, as the UUIDs drawn by the init are, not as paths that \<open>path.join\<close> would
  resolve to another directory.
\<close>

record stagedir =
  meta :: "session option"
  chunks :: "rat \<rightharpoonup> bytes"

text \<open>A file of \<open>uploads/final\<close>: its bytes and its modification time in milliseconds.\<close>

record artifact =
  content :: bytes
  mtime :: nat

text \<open>
  The state kept for a live stream. The \<open>writer\<close> is the handle opened on
  \<open>finalPath\<close>; the model writes through it by the file's name.
\<close>

record liveStream =
  streamId :: string
  finalName :: string
  ls_mimeType :: string
  chunkCount :: nat
  bytesWritten :: nat
  startedAt :: nat

text \<open>
  \<open>final\<close> is the directory \<open>uploads/final\<close> as \<open>readdir\<close> enumerates it: an
  association list with one pair per file name.
\<close>

record world =
  sessions :: "string \<rightharpoonup> session"
  liveStreams :: "string \<rightharpoonup> liveStream"
  tmp :: "string \<rightharpoonup> stagedir"
  final :: "(string \<times> artifact) list"

subsection \<open>Outcomes\<close>

text \<open>
  What a rejected promise carries: a chunk file that is not there (\<open>ENOENT\<close>, with the
  index of the chunk) or an error of the output stream (\<open>EIO\<close>).
\<close>

datatype error = ENOENT rat | EIO

record listEntry =
  name :: string
  sizeBytes :: nat
  modifiedAt :: nat

text \<open>
  One constructor per \<open>res.status(..).json(..)\<close> of the source, in the order of the
  fields of the body; \<open>BadRequest\<close> is status 400 (the spec's InvalidArgument),
  \<open>NotFound\<close> status 404, and \<open>Rejected\<close> the handler's promise rejected with no
  response sent.
\<close>

datatype response =
    UploadCreated string
  | StatusOk string jsnum "rat list" bool
  | ChunkAccepted string rat nat jsnum bool "string option"
  | StreamCreated string string
  | StreamChunkAccepted string nat nat
  | StreamFinished string string nat nat
  | FileList "listEntry list"
  | BadRequest string
  | NotFound string
  | Rejected error

text \<open>
  An error of a write stream is not only handed to the callback of \<open>write\<close> or \<open>end\<close>:
  the stream also emits it as its \<open>'error'\<close> event. Neither the writer of
  \<open>mergeChunks\<close> (line 59) nor the writer of a live stream (line 189) is given a
  listener for it, so the event is thrown and the process ends. \<open>Rejected EIO\<close> is
  therefore the last outcome of a server process. (The reader of a chunk file has its
  listener, line 65: \<open>ENOENT\<close> only rejects the promise.)
\<close>

fun processEnds :: "response \<Rightarrow> bool" where
  "processEnds (Rejected EIO) = True"
| "processEnds _ = False"

text \<open>The \<open>complete\<close> flag and the \<open>output\<close> field of a response (false, none elsewhere).\<close>

fun completeFlag :: "response \<Rightarrow> bool" where
  "completeFlag (ChunkAccepted u i r t c out) = c"
| "completeFlag (StatusOk u t rc c) = c"
| "completeFlag _ = False"

fun outputOf :: "response \<Rightarrow> string option" where
  "outputOf (ChunkAccepted u i r t c out) = out"
| "outputOf (StreamFinished s out b k) = Some out"
| "outputOf _ = None"

subsection \<open>Session metadata on disk\<close>

text \<open>\<open>fsp.mkdir(dir, {recursive: true})\<close>\<close>

definition mkdirSession :: "string \<Rightarrow> world \<Rightarrow> world" where
  "mkdirSession uid w =
     (case tmp w uid of
        None \<Rightarrow> w\<lparr>tmp := (tmp w)(uid \<mapsto> \<lparr>meta = None, chunks = Map.empty\<rparr>)\<rparr>
      | Some d \<Rightarrow> w)"

definition writeSessionMeta :: "string \<Rightarrow> session \<Rightarrow> world \<Rightarrow> world" where
  "writeSessionMeta uid m w =
     (let w1 = mkdirSession uid w in
      case tmp w1 uid of
        None \<Rightarrow> w1
      | Some d \<Rightarrow> w1\<lparr>tmp := (tmp w1)(uid \<mapsto> d\<lparr>meta := Some m\<rparr>)\<rparr>)"

text \<open>\<open>readSessionMeta\<close> throws when the directory or \<open>meta.json\<close> is missing: \<open>None\<close>.\<close>

definition readSessionMeta :: "string \<Rightarrow> world \<Rightarrow> session option" where
  "readSessionMeta uid w = (case tmp w uid of None \<Rightarrow> None | Some d \<Rightarrow> meta d)"

text \<open>
  The lookup both upload handlers start with: the registry first, then the snapshot,
  which is registered again. \<open>None\<close> is the 404 branch.
\<close>

definition lookupSession :: "string \<Rightarrow> world \<Rightarrow> (session \<times> world) option" where
  "lookupSession uid w =
     (case sessions w uid of
        Some s \<Rightarrow> Some (s, w)
      | None \<Rightarrow>
          (case readSessionMeta uid w of
             None \<Rightarrow> None
           | Some s \<Rightarrow> Some (s, w\<lparr>sessions := (sessions w)(uid \<mapsto> s)\<rparr>)))"

subsection \<open>mergeChunks\<close>

text \<open>
  The loop \<open>for (let i = 0; i < meta.totalChunks; i += 1)\<close>: each round pipes
  \<open>chunk-<i>.part\<close> of the directory named by \<open>meta.uploadId\<close> into the writer. The
  result carries what the writer has received, also when a read fails.
\<close>

function mergeLoop :: "jsnum \<Rightarrow> (rat \<rightharpoonup> bytes) \<Rightarrow> nat \<Rightarrow> bytes \<Rightarrow> error option \<times> bytes" where
  "mergeLoop limit dir i out =
     (if js_less (js_nat i) limit then
        (case dir (of_nat i) of
           None \<Rightarrow> (Some (ENOENT (of_nat i)), out)
         | Some b \<Rightarrow> mergeLoop limit dir (Suc i) (out @ b))
      else (None, out))"
  by pat_completeness auto
termination
proof (relation "measure (\<lambda>(limit, dir, i, out).
                   case limit of NaN \<Rightarrow> 0 | Num q \<Rightarrow> nat \<lceil>q\<rceil> - i)")
  show "wf (measure (\<lambda>(limit, dir, i, out).
                   case limit of NaN \<Rightarrow> 0 | Num q \<Rightarrow> nat \<lceil>q\<rceil> - i))"
    by simp
next
  fix limit :: jsnum and dir :: "rat \<rightharpoonup> bytes" and i :: nat and out b :: bytes
  assume lt: "js_less (js_nat i) limit"
  then obtain q where q: "limit = Num q" and iq: "of_nat i < q"
    by (cases limit) (auto simp: js_nat_def)
  have "of_int (int i) < q" using iq by simp
  also have "q \<le> of_int \<lceil>q\<rceil>" by simp
  finally have "int i < \<lceil>q\<rceil>" by (simp only: of_int_less_iff)
  hence "i < nat \<lceil>q\<rceil>" by linarith
  thus "((limit, dir, Suc i, out @ b), (limit, dir, i, out))
          \<in> measure (\<lambda>(limit, dir, i, out).
                   case limit of NaN \<Rightarrow> 0 | Num q \<Rightarrow> nat \<lceil>q\<rceil> - i)"
    using q by simp
qed

declare mergeLoop.simps [simp del]

text \<open>The chunk files the merge reads: those of the directory of \<open>meta.uploadId\<close>.\<close>

definition chunkFiles :: "string \<Rightarrow> world \<Rightarrow> (rat \<rightharpoonup> bytes)" where
  "chunkFiles uid w = (case tmp w uid of None \<Rightarrow> Map.empty | Some d \<Rightarrow> chunks d)"

text \<open>
  \<open>mergeChunks(meta)\<close>: \<open>createWriteStream(finalPath)\<close> creates the file or truncates
  the one of that name, the loop fills it, \<open>writer.end\<close> closes it. The promise is
  rejected when a chunk cannot be read or when \<open>end\<close> reports an error (\<open>endErr\<close>,
  which also ends the process, see \<open>processEnds\<close>);
  the file then stays in \<open>uploads/final\<close> with what was written to it.
\<close>

definition mergeChunks :: "nat \<Rightarrow> bool \<Rightarrow> session \<Rightarrow> world \<Rightarrow> (error + string) \<times> world" where
  "mergeChunks now endErr m w =
     (let fname = artifactName now (originalName m);
          (err, out) = mergeLoop (totalChunks m) (chunkFiles (uploadId m) w) 0 [];
          w1 = w\<lparr>final := AList.update fname \<lparr>content = out, mtime = now\<rparr> (final w)\<rparr>
      in case err of
           Some e \<Rightarrow> (Inl e, w1)
         | None \<Rightarrow> if endErr then (Inl EIO, w1) else (Inr fname, w1))"

subsection \<open>The upload handlers\<close>

text \<open>
  \<open>POST /api/uploads/init\<close>. A parameter that is \<open>None\<close> is a field missing from the
  body; \<open>totalChunks\<close> is given as \<open>Number\<close> converts it.
\<close>

definition uploadInit ::
  "nat \<Rightarrow> string \<Rightarrow> string option \<Rightarrow> jsnum option \<Rightarrow> jsnum option \<Rightarrow> string option \<Rightarrow> world
     \<Rightarrow> response \<times> world" where
  "uploadInit now uid filename tSize tChunks mime w =
     (case filename of
        None \<Rightarrow> (BadRequest ''filename is required'', w)
      | Some fname \<Rightarrow>
          if fname = [] then (BadRequest ''filename is required'', w)
          else
            (let s = \<lparr>uploadId = uid,
                      originalName = safeName fname,
                      totalSize = (case tSize of None \<Rightarrow> Num 0 | Some n \<Rightarrow> n),
                      totalChunks = (case tChunks of None \<Rightarrow> Num 1 | Some n \<Rightarrow> n),
                      mimeType = (case mime of None \<Rightarrow> ''application/octet-stream'' | Some t \<Rightarrow> t),
                      createdAt = now,
                      receivedChunks = []\<rparr>
             in (UploadCreated uid,
                 writeSessionMeta uid s (w\<lparr>sessions := (sessions w)(uid \<mapsto> s)\<rparr>))))"

text \<open>\<open>GET /api/uploads/:uploadId/status\<close>\<close>

definition uploadStatus :: "string \<Rightarrow> world \<Rightarrow> response \<times> world" where
  "uploadStatus uid w =
     (case lookupSession uid w of
        None \<Rightarrow> (NotFound ''upload session not found'', w)
      | Some (s, w1) \<Rightarrow>
          (StatusOk uid (totalChunks s) (receivedChunks s)
             (js_nat (length (receivedChunks s)) = totalChunks s), w1))"

text \<open>\<open>fsp.writeFile(chunkPath, req.file.buffer)\<close> after \<open>fsp.mkdir(sessionDir)\<close>\<close>

definition writeChunk :: "string \<Rightarrow> rat \<Rightarrow> bytes \<Rightarrow> world \<Rightarrow> world" where
  "writeChunk uid i b w =
     (let w1 = mkdirSession uid w in
      case tmp w1 uid of
        None \<Rightarrow> w1
      | Some d \<Rightarrow> w1\<lparr>tmp := (tmp w1)(uid \<mapsto> d\<lparr>chunks := (chunks d)(i \<mapsto> b)\<rparr>)\<rparr>)"

text \<open>The \<open>includes\<close>/\<open>push\<close>/\<open>sort\<close> lines on \<open>session.receivedChunks\<close>.\<close>

definition recordChunk :: "rat \<Rightarrow> rat list \<Rightarrow> rat list" where
  "recordChunk i rc = (if i \<in> set rc then rc else sort (rc @ [i]))"

text \<open>
  \<open>POST /api/uploads/:uploadId/chunk\<close>. \<open>index\<close> is \<open>Number(req.body.index)\<close>, \<open>file\<close>
  is \<open>req.file\<close> (\<open>None\<close> when the part is missing). The session object is the one
  registered under \<open>uid\<close>, so its mutation shows in the registry before the merge.
  A rejected \<open>mergeChunks\<close> leaves the handler at line 164: no teardown, no snapshot, no
  response.
\<close>

definition uploadChunk ::
  "nat \<Rightarrow> bool \<Rightarrow> string \<Rightarrow> jsnum \<Rightarrow> bytes option \<Rightarrow> world \<Rightarrow> response \<times> world" where
  "uploadChunk now endErr uid index file w =
     (case file of
        None \<Rightarrow> (BadRequest ''chunk file is required'', w)
      | Some buffer \<Rightarrow>
          (case index of
             NaN \<Rightarrow> (BadRequest ''valid chunk index is required'', w)
           | Num chunkIndex \<Rightarrow>
               if chunkIndex < 0 then (BadRequest ''valid chunk index is required'', w)
               else
                 (case lookupSession uid w of
                    None \<Rightarrow> (NotFound ''upload session not found'', w)
                  | Some (s0, w1) \<Rightarrow>
                      (let w2 = writeChunk uid chunkIndex buffer w1;
                           s = s0\<lparr>receivedChunks := recordChunk chunkIndex (receivedChunks s0)\<rparr>;
                           w3 = w2\<lparr>sessions := (sessions w2)(uid \<mapsto> s)\<rparr>
                       in if js_nat (length (receivedChunks s)) = totalChunks s then
                            (case mergeChunks now endErr s w3 of
                               (Inl e, w4) \<Rightarrow> (Rejected e, w4)
                             | (Inr fname, w4) \<Rightarrow>
                                 (ChunkAccepted uid chunkIndex (length (receivedChunks s))
                                    (totalChunks s) True (Some fname),
                                  w4\<lparr>tmp := (tmp w4)(uid := None),
                                     sessions := (sessions w4)(uid := None)\<rparr>))
                          else
                            (ChunkAccepted uid chunkIndex (length (receivedChunks s))
                               (totalChunks s) False None,
                             writeSessionMeta uid s w3)))))"

subsection \<open>The live stream handlers\<close>

text \<open>
  \<open>createWriteStream(finalPath, {flags: 'a'})\<close>: a file that is not there is created
  empty, one that is there is left as it is.
\<close>

definition openAppend :: "string \<Rightarrow> nat \<Rightarrow> (string \<times> artifact) list \<Rightarrow> (string \<times> artifact) list" where
  "openAppend fname now fs =
     (case map_of fs fname of
        None \<Rightarrow> AList.update fname \<lparr>content = [], mtime = now\<rparr> fs
      | Some f \<Rightarrow> fs)"

text \<open>
  A write through a handle opened for appending puts the bytes at the end of the file.
  (A name that is no longer in the directory leaves the directory as it is.)
\<close>

definition appendFile :: "string \<Rightarrow> bytes \<Rightarrow> nat \<Rightarrow> (string \<times> artifact) list \<Rightarrow> (string \<times> artifact) list" where
  "appendFile fname b now fs =
     (case map_of fs fname of
        None \<Rightarrow> fs
      | Some f \<Rightarrow> AList.update fname \<lparr>content = content f @ b, mtime = now\<rparr> fs)"

text \<open>\<open>POST /api/streams/init\<close>\<close>

definition streamInit ::
  "nat \<Rightarrow> string \<Rightarrow> string option \<Rightarrow> string option \<Rightarrow> world \<Rightarrow> response \<times> world" where
  "streamInit now sid filename mime w =
     (let fname = artifactName now (case filename of None \<Rightarrow> ''live.webm'' | Some f \<Rightarrow> f);
          st = \<lparr>streamId = sid,
                finalName = fname,
                ls_mimeType = (case mime of None \<Rightarrow> ''video/webm'' | Some t \<Rightarrow> t),
                chunkCount = 0,
                bytesWritten = 0,
                startedAt = now\<rparr>
      in (StreamCreated sid fname,
          w\<lparr>final := openAppend fname now (final w),
            liveStreams := (liveStreams w)(sid \<mapsto> st)\<rparr>))"

text \<open>
  \<open>POST /api/streams/:streamId/chunk\<close>; \<open>req.file.size\<close> is the length of the buffer
  (memory storage). \<open>writeErr\<close>: the writer reports an error, the promise of line 217 is
  rejected before the counters are touched, and the process ends (\<open>processEnds\<close>).
\<close>

definition streamChunk ::
  "nat \<Rightarrow> bool \<Rightarrow> string \<Rightarrow> bytes option \<Rightarrow> world \<Rightarrow> response \<times> world" where
  "streamChunk now writeErr sid file w =
     (case liveStreams w sid of
        None \<Rightarrow> (NotFound ''live stream session not found'', w)
      | Some st \<Rightarrow>
          (case file of
             None \<Rightarrow> (BadRequest ''chunk is required'', w)
           | Some buffer \<Rightarrow>
               if writeErr then (Rejected EIO, w)
               else
                 (let st1 = st\<lparr>chunkCount := chunkCount st + 1,
                               bytesWritten := bytesWritten st + length buffer\<rparr>
                  in (StreamChunkAccepted sid (chunkCount st1) (bytesWritten st1),
                      w\<lparr>final := appendFile (finalName st) buffer now (final w),
                        liveStreams := (liveStreams w)(sid \<mapsto> st1)\<rparr>))))"

text \<open>
  \<open>POST /api/streams/:streamId/finish\<close>. \<open>endErr\<close>: \<open>writer.end\<close> reports an error; the
  stream is not deleted from the map, and the process ends (\<open>processEnds\<close>).
\<close>

definition streamFinish :: "bool \<Rightarrow> string \<Rightarrow> world \<Rightarrow> response \<times> world" where
  "streamFinish endErr sid w =
     (case liveStreams w sid of
        None \<Rightarrow> (NotFound ''live stream session not found'', w)
      | Some st \<Rightarrow>
          if endErr then (Rejected EIO, w)
          else (StreamFinished sid (finalName st) (bytesWritten st) (chunkCount st),
                w\<lparr>liveStreams := (liveStreams w)(sid := None)\<rparr>))"

subsection \<open>The catalog\<close>

text \<open>
  \<open>files.sort((a, b) => b.modifiedAt.localeCompare(a.modifiedAt))\<close>: a stable sort,
  later modification first. The ISO strings of two times compare as the times do, so
  the model compares the millisecond values.
\<close>

fun insertDesc :: "listEntry \<Rightarrow> listEntry list \<Rightarrow> listEntry list" where
  "insertDesc e [] = [e]"
| "insertDesc e (x # xs) =
     (if modifiedAt x \<le> modifiedAt e then e # x # xs else x # insertDesc e xs)"

definition sortDesc :: "listEntry list \<Rightarrow> listEntry list" where
  "sortDesc es = foldr insertDesc es []"

definition statEntry :: "string \<times> artifact \<Rightarrow> listEntry" where
  "statEntry p = \<lparr>name = fst p, sizeBytes = length (content (snd p)), modifiedAt = mtime (snd p)\<rparr>"

text \<open>\<open>GET /api/files\<close>: every entry of \<open>uploads/final\<close> is a file.\<close>

definition listFiles :: "world \<Rightarrow> response \<times> world" where
  "listFiles w = (FileList (sortDesc (map statEntry (final w))), w)"

subsection \<open>Requests and runs\<close>

text \<open>The server at start: both maps empty, the directories created and empty.\<close>

definition emptyWorld :: world where
  "emptyWorld = \<lparr>sessions = Map.empty, liveStreams = Map.empty, tmp = Map.empty, final = []\<rparr>"

text \<open>
  The requests of the API, each with what its handler takes from the environment, and
  the run of a list of requests, handled one after the other: the list of outcomes and
  the world after the last request.
\<close>

datatype request =
    UploadInit nat string "string option" "jsnum option" "jsnum option" "string option"
  | UploadStatus string
  | UploadChunk nat bool string jsnum "bytes option"
  | StreamInit nat string "string option" "string option"
  | StreamChunk nat bool string "bytes option"
  | StreamFinish bool string
  | ListFiles

text \<open>The routes of the application: the handler each request is given to.\<close>

fun route :: "request \<Rightarrow> world \<Rightarrow> response \<times> world" where
  "route (UploadInit now uid filename tSize tChunks mime) w = uploadInit now uid filename tSize tChunks mime w"
| "route (UploadStatus uid) w = uploadStatus uid w"
| "route (UploadChunk now endErr uid index part) w = uploadChunk now endErr uid index part w"
| "route (StreamInit now sid filename mime) w = streamInit now sid filename mime w"
| "route (StreamChunk now writeErr sid part) w = streamChunk now writeErr sid part w"
| "route (StreamFinish endErr sid) w = streamFinish endErr sid w"
| "route ListFiles w = listFiles w"

text \<open>
  What a server started again begins with (lines 17-19 and 32-33): the directories as
  they are, both maps empty.
\<close>

definition restart :: "world \<Rightarrow> world" where
  "restart w = w\<lparr>sessions := Map.empty, liveStreams := Map.empty\<rparr>"

text \<open>
  A request handled by the server: the outcome of its handler and the world the next
  request meets, which is the one of a server started again when the outcome has ended
  the process.
\<close>

definition handle :: "request \<Rightarrow> world \<Rightarrow> response \<times> world" where
  "handle r w =
     (let (a, w1) = route r w
      in (a, if processEnds a then restart w1 else w1))"

fun run :: "request list \<Rightarrow> world \<Rightarrow> response list \<times> world" where
  "run [] w = ([], w)"
| "run (r # rs) w =
     (let (a, w1) = handle r w;
          (as, w2) = run rs w1
      in (a # as, w2))"

text \<open>
  Chunk requests for one upload session, handled one after the other; a request is the
  time it is handled at, the \<open>endErr\<close> of its merge (if it merges), the index and the
  file part.
\<close>

fun submitAll ::
  "string \<Rightarrow> (nat \<times> bool \<times> jsnum \<times> bytes option) list \<Rightarrow> world \<Rightarrow> response list \<times> world" where
  "submitAll uid [] w = ([], w)"
| "submitAll uid ((now, endErr, index, file) # rest) w =
     (let (r, w1) = handle (UploadChunk now endErr uid index file) w;
          (rs, w2) = submitAll uid rest w1
      in (r # rs, w2))"

text \<open>
  A well-formed chunk: handled at \<open>now\<close>, index the natural number \<open>i\<close>, payload \<open>b\<close>,
  no error from the output stream.
\<close>

definition chunkReq :: "nat \<times> nat \<times> bytes \<Rightarrow> nat \<times> bool \<times> jsnum \<times> bytes option" where
  "chunkReq c = (fst c, False, js_nat (fst (snd c)), Some (snd (snd c)))"

subsection \<open>The chunk handler with other requests in flight\<close>

text \<open>
  Every \<open>await\<close> of a handler lets the other requests in flight go on. In the chunk
  handler the whole merge lies between the completion test (line 163) and the teardown
  (lines 168-169), behind the \<open>await\<close> of line 164. The handler is cut there:
  \<open>chunkBegin\<close> is the handler from its first line to the test; it has answered
  (\<open>Inl\<close>), or it stands before \<open>mergeChunks(session)\<close> (\<open>Inr\<close>) with the session
  object and the index it holds. \<open>chunkEnd\<close> is the handler from line 165 on, once
  \<open>mergeChunks\<close> has returned the name. The fields of the session object that are read
  after the cut are carried as they are at the test. Handled with no other request in
  between, the pieces make up \<open>uploadChunk\<close> (lemma \<open>uploadChunk_phases\<close>).
\<close>

definition chunkBegin ::
  "string \<Rightarrow> jsnum \<Rightarrow> bytes option \<Rightarrow> world \<Rightarrow> (response + session \<times> rat) \<times> world" where
  "chunkBegin uid index file w =
     (case file of
        None \<Rightarrow> (Inl (BadRequest ''chunk file is required''), w)
      | Some buffer \<Rightarrow>
          (case index of
             NaN \<Rightarrow> (Inl (BadRequest ''valid chunk index is required''), w)
           | Num chunkIndex \<Rightarrow>
               if chunkIndex < 0 then (Inl (BadRequest ''valid chunk index is required''), w)
               else
                 (case lookupSession uid w of
                    None \<Rightarrow> (Inl (NotFound ''upload session not found''), w)
                  | Some (s0, w1) \<Rightarrow>
                      (let w2 = writeChunk uid chunkIndex buffer w1;
                           s = s0\<lparr>receivedChunks := recordChunk chunkIndex (receivedChunks s0)\<rparr>;
                           w3 = w2\<lparr>sessions := (sessions w2)(uid \<mapsto> s)\<rparr>
                       in if js_nat (length (receivedChunks s)) = totalChunks s then
                            (Inr (s, chunkIndex), w3)
                          else
                            (Inl (ChunkAccepted uid chunkIndex (length (receivedChunks s))
                                    (totalChunks s) False None),
                             writeSessionMeta uid s w3)))))"

definition chunkEnd :: "string \<Rightarrow> rat \<Rightarrow> session \<Rightarrow> string \<Rightarrow> world \<Rightarrow> response \<times> world" where
  "chunkEnd uid chunkIndex s fname w =
     (ChunkAccepted uid chunkIndex (length (receivedChunks s)) (totalChunks s) True (Some fname),
      w\<lparr>tmp := (tmp w)(uid := None), sessions := (sessions w)(uid := None)\<rparr>)"

text \<open>The request gets to line 164: it calls \<open>mergeChunks\<close>.\<close>

definition reachesMerge :: "string \<Rightarrow> jsnum \<Rightarrow> bytes option \<Rightarrow> world \<Rightarrow> bool" where
  "reachesMerge uid index file w =
     (case fst (chunkBegin uid index file w) of Inl r \<Rightarrow> False | Inr p \<Rightarrow> True)"

text \<open>How many of the requests of a \<open>submitAll\<close> call \<open>mergeChunks\<close>.\<close>

fun mergeCount :: "string \<Rightarrow> (nat \<times> bool \<times> jsnum \<times> bytes option) list \<Rightarrow> world \<Rightarrow> nat" where
  "mergeCount uid [] w = 0"
| "mergeCount uid ((now, endErr, index, file) # rest) w =
     (if reachesMerge uid index file w then 1 else 0) +
     mergeCount uid rest (snd (handle (UploadChunk now endErr uid index file) w))"

subsection \<open>Notions used to state the properties\<close>

text \<open>
  The outcome expected for the \<open>k\<close>-th accepted chunk of a session of \<open>N\<close> chunks named
  \<open>oname\<close>: status 202 with \<open>received = k\<close>, complete exactly when \<open>k = N\<close>, and then
  the name of the artifact.
\<close>

definition chunkAck :: "string \<Rightarrow> string \<Rightarrow> nat \<Rightarrow> nat \<times> (nat \<times> nat \<times> bytes) \<Rightarrow> response" where
  "chunkAck uid oname N p =
     (case p of (k, (now, i, b)) \<Rightarrow>
        ChunkAccepted uid (of_nat i) k (js_nat N) (k = N)
          (if k = N then Some (artifactName now oname) else None))"

text \<open>
  The chunk handler calls \<open>mergeChunks\<close> exactly when its outcome is a 202 with
  \<open>complete = true\<close> or a rejection (lemma \<open>uploadChunk_mergeRan_iff\<close> below).
\<close>

fun mergeRan :: "response \<Rightarrow> bool" where
  "mergeRan (ChunkAccepted u i r t c out) = c"
| "mergeRan (Rejected e) = True"
| "mergeRan _ = False"

text \<open>
  What the received list promises about the staging directory: the session found for
  \<open>uid\<close> carries this id, lists no index twice, and every listed index has its chunk
  file.
\<close>

definition receivedStaged :: "string \<Rightarrow> world \<Rightarrow> bool" where
  "receivedStaged uid w \<longleftrightarrow>
     (case lookupSession uid w of
        None \<Rightarrow> True
      | Some (s, w1) \<Rightarrow>
          uploadId s = uid \<and> distinct (receivedChunks s) \<and>
          (\<forall>j \<in> set (receivedChunks s). chunkFiles uid w j \<noteq> None))"

text \<open>
  The same for the snapshot, from which a server started again takes the session.
\<close>

definition snapshotStaged :: "string \<Rightarrow> world \<Rightarrow> bool" where
  "snapshotStaged uid w \<longleftrightarrow>
     (case readSessionMeta uid w of
        None \<Rightarrow> True
      | Some m \<Rightarrow>
          uploadId m = uid \<and> distinct (receivedChunks m) \<and>
          (\<forall>j \<in> set (receivedChunks m). chunkFiles uid w j \<noteq> None))"

text \<open>
  The snapshot of a registered session is the session itself, except after a merge that
  failed on a missing chunk (line 171 was not reached): then the session has as many
  indices as it needs, and a merge of the chunk files as they are fails again.
\<close>

definition snapshotCurrent :: "string \<Rightarrow> world \<Rightarrow> bool" where
  "snapshotCurrent uid w \<longleftrightarrow>
     (case sessions w uid of
        None \<Rightarrow> True
      | Some s \<Rightarrow>
          readSessionMeta uid w = Some s \<or>
          (readSessionMeta uid w \<noteq> None \<and>
           js_nat (length (receivedChunks s)) = totalChunks s \<and>
           fst (mergeLoop (totalChunks s) (chunkFiles uid w) 0 []) \<noteq> None))"

definition sessionSound :: "string \<Rightarrow> world \<Rightarrow> bool" where
  "sessionSound uid w \<longleftrightarrow> receivedStaged uid w \<and> snapshotStaged uid w \<and> snapshotCurrent uid w"

text \<open>The artifact name \<open>POST /api/streams/init\<close> derives from its \<open>filename\<close> field.\<close>

definition liveName :: "nat \<Rightarrow> string option \<Rightarrow> string" where
  "liveName now filename = artifactName now (case filename of None \<Rightarrow> ''live.webm'' | Some f \<Rightarrow> f)"

text \<open>The entries \<open>GET /api/files\<close> answers with.\<close>

definition catalog :: "world \<Rightarrow> listEntry list" where
  "catalog w = (case fst (listFiles w) of FileList es \<Rightarrow> es | _ \<Rightarrow> [])"

text \<open>
  What a request appends to the live stream \<open>sid\<close>: the time and the payload of a chunk
  request for \<open>sid\<close> that carries its file part; and the appends of a list of requests,
  in the order of the list.
\<close>

fun ownChunk :: "string \<Rightarrow> request \<Rightarrow> (nat \<times> bytes) list" where
  "ownChunk sid (StreamChunk now writeErr sid' (Some b)) = (if sid' = sid then [(now, b)] else [])"
| "ownChunk sid _ = []"

definition ownChunks :: "string \<Rightarrow> request list \<Rightarrow> (nat \<times> bytes) list" where
  "ownChunks sid rs = concat (map (ownChunk sid) rs)"

text \<open>A chunk request for the stream \<open>sid\<close>; an init or a finish under the id \<open>sid\<close>.\<close>

fun appendsTo :: "string \<Rightarrow> request \<Rightarrow> bool" where
  "appendsTo sid (StreamChunk now writeErr sid' part) = (sid' = sid)"
| "appendsTo sid _ = False"

fun opensOrCloses :: "string \<Rightarrow> request \<Rightarrow> bool" where
  "opensOrCloses sid (StreamInit now sid' filename mime) = (sid' = sid)"
| "opensOrCloses sid (StreamFinish endErr sid') = (sid' = sid)"
| "opensOrCloses sid _ = False"

text \<open>
  The requests of a live stream from its init to its finish, with the requests \<open>rs\<close>
  that the server handles in between.
\<close>

definition liveRequests ::
  "nat \<Rightarrow> string \<Rightarrow> string option \<Rightarrow> string option \<Rightarrow> request list \<Rightarrow> request list" where
  "liveRequests now sid filename mime rs =
     StreamInit now sid filename mime # rs @ [StreamFinish False sid]"

text \<open>The request, handled in \<open>w\<close>, creates or changes the file \<open>fname\<close> of \<open>uploads/final\<close>.\<close>

definition writesFile :: "string \<Rightarrow> request \<Rightarrow> world \<Rightarrow> bool" where
  "writesFile fname r w \<longleftrightarrow> map_of (final (snd (handle r w))) fname \<noteq> map_of (final w) fname"

text \<open>
  The live stream \<open>sid\<close>, whose artifact is \<open>fname\<close>, is left alone by the requests \<open>rs\<close>
  handled from \<open>w\<close> on: none of them ends the process, none is an init or a finish under
  the id \<open>sid\<close>, and none but the chunk requests of \<open>sid\<close> itself writes to \<open>fname\<close> (as
  another stream or a merge with the same artifact name would).
\<close>

fun undisturbed :: "string \<Rightarrow> string \<Rightarrow> request list \<Rightarrow> world \<Rightarrow> bool" where
  "undisturbed fname sid [] w = True"
| "undisturbed fname sid (r # rs) w =
     (\<not> processEnds (fst (handle r w)) \<and> \<not> opensOrCloses sid r \<and>
      (appendsTo sid r \<or> \<not> writesFile fname r w) \<and>
      undisturbed fname sid rs (snd (handle r w)))"

subsection \<open>Example worlds\<close>

text \<open>
  The session of the example of the specification (\<open>clip.mp4\<close>, three chunks) and the
  world after its init.
\<close>

definition clipSession :: session where
  "clipSession = \<lparr>uploadId = ''u1'', originalName = ''clip.mp4'', totalSize = Num 0,
      totalChunks = js_nat 3, mimeType = ''application/octet-stream'', createdAt = 100,
      receivedChunks = []\<rparr>"

definition clipWorld :: world where
  "clipWorld = snd (uploadInit 100 ''u1'' (Some ''clip.mp4'') None (Some (js_nat 3)) None emptyWorld)"

text \<open>A session declared with no chunks at all.\<close>

definition zeroWorld :: world where
  "zeroWorld = snd (uploadInit 100 ''u0'' (Some ''empty.bin'') None (Some (js_nat 0)) None emptyWorld)"

text \<open>A session of a single chunk, for the file name \<open>a\<close>.\<close>

definition oneSession :: session where
  "oneSession = \<lparr>uploadId = ''u1'', originalName = ''a'', totalSize = Num 0,
      totalChunks = js_nat 1, mimeType = ''application/octet-stream'', createdAt = 100,
      receivedChunks = []\<rparr>"

definition oneWorld :: world where
  "oneWorld = snd (uploadInit 100 ''u1'' (Some ''a'') None (Some (js_nat 1)) None emptyWorld)"

text \<open>
  Two uploads of the same file name \<open>a\<close>: the first is merged at millisecond 7, then a
  second session for the same name is created.
\<close>

definition twinWorld1 :: world where
  "twinWorld1 = snd (uploadChunk 7 False ''u1'' (Num 0) (Some ''X'') oneWorld)"

definition twinWorld2 :: world where
  "twinWorld2 = snd (uploadInit 7 ''u2'' (Some ''a'') None (Some (js_nat 1)) None twinWorld1)"

text \<open>
  Two live streams started in the same millisecond with the default file name, each
  then sending one chunk.
\<close>

definition liveTwins :: world where
  "liveTwins = snd (streamInit 5 ''b'' None None (snd (streamInit 5 ''a'' None None emptyWorld)))"

definition crossWorld :: world where
  "crossWorld = snd (streamChunk 7 False ''b'' (Some ''A'')
                   (snd (streamChunk 6 False ''a'' (Some ''X'') liveTwins)))"

text \<open>
  Requests met by a live stream \<open>s1\<close> between its init and its finish: its own two
  chunks, a listing, and a second stream \<open>s2\<close> that starts a millisecond later and
  appends to its own file.
\<close>

definition mixedRequests :: "request list" where
  "mixedRequests =
     [StreamChunk 6 False ''s1'' (Some ''AB''), ListFiles, StreamInit 6 ''s2'' None None,
      StreamChunk 7 False ''s2'' (Some ''Z''), StreamChunk 8 False ''s1'' (Some ''C'')]"

text \<open>A session of two chunks for the file name \<open>a\<close> that has received its chunk 0.\<close>

definition pairWorld :: world where
  "pairWorld = snd (run [UploadInit 100 ''u1'' (Some ''a'') None (Some (js_nat 2)) None,
                         UploadChunk 101 False ''u1'' (Num 0) (Some ''X'')] emptyWorld)"

text \<open>
  Two requests carrying chunk 0 of the single-chunk session, in flight together: both
  pass the completion test before either merge has ended; the merges run at the
  milliseconds 7 and 8; then both handlers tear down and answer.
\<close>

definition flightBegin1 :: "(response + session \<times> rat) \<times> world" where
  "flightBegin1 = chunkBegin ''u1'' (Num 0) (Some ''X'') oneWorld"

definition flightBegin2 :: "(response + session \<times> rat) \<times> world" where
  "flightBegin2 = chunkBegin ''u1'' (Num 0) (Some ''X'') (snd flightBegin1)"

definition flightMerge1 :: "(error + string) \<times> world" where
  "flightMerge1 = mergeChunks 7 False (oneSession\<lparr>receivedChunks := [0]\<rparr>) (snd flightBegin2)"

definition flightMerge2 :: "(error + string) \<times> world" where
  "flightMerge2 = mergeChunks 8 False (oneSession\<lparr>receivedChunks := [0]\<rparr>) (snd flightMerge1)"

definition flightEnd1 :: "response \<times> world" where
  "flightEnd1 = chunkEnd ''u1'' 0 (oneSession\<lparr>receivedChunks := [0]\<rparr>) ''7-a'' (snd flightMerge2)"

definition flightEnd2 :: "response \<times> world" where
  "flightEnd2 = chunkEnd ''u1'' 0 (oneSession\<lparr>receivedChunks := [0]\<rparr>) ''8-a'' (snd flightEnd1)"

section \<open>Properties\<close>

subsection \<open>Basic facts about the state operations\<close>

lemma js_nat_eq [simp]: "js_nat a = js_nat b \<longleftrightarrow> a = b"
  by (simp add: js_nat_def)

lemma js_less_nat [simp]: "js_less (js_nat a) (js_nat b) \<longleftrightarrow> a < b"
  by (simp add: js_nat_def)

lemma mkdirSession_fields [simp]:
  "sessions (mkdirSession uid w) = sessions w"
  "liveStreams (mkdirSession uid w) = liveStreams w"
  "final (mkdirSession uid w) = final w"
  by (simp_all add: mkdirSession_def split: option.splits)

lemma mkdirSession_tmp:
  "tmp (mkdirSession uid w) =
     (case tmp w uid of None \<Rightarrow> (tmp w)(uid \<mapsto> \<lparr>meta = None, chunks = Map.empty\<rparr>) | Some d \<Rightarrow> tmp w)"
  by (simp add: mkdirSession_def split: option.splits)

lemma writeSessionMeta_fields [simp]:
  "sessions (writeSessionMeta uid m w) = sessions w"
  "liveStreams (writeSessionMeta uid m w) = liveStreams w"
  "final (writeSessionMeta uid m w) = final w"
  by (simp_all add: writeSessionMeta_def Let_def split: option.splits)

lemma writeChunk_fields [simp]:
  "sessions (writeChunk uid i b w) = sessions w"
  "liveStreams (writeChunk uid i b w) = liveStreams w"
  "final (writeChunk uid i b w) = final w"
  by (simp_all add: writeChunk_def Let_def split: option.splits)

lemma chunkFiles_writeChunk [simp]:
  "chunkFiles uid (writeChunk uid i b w) = (chunkFiles uid w)(i \<mapsto> b)"
  by (auto simp: chunkFiles_def writeChunk_def mkdirSession_def Let_def split: option.splits)

lemma chunkFiles_writeSessionMeta [simp]:
  "chunkFiles u (writeSessionMeta uid m w) = chunkFiles u w"
  by (auto simp: chunkFiles_def writeSessionMeta_def mkdirSession_def Let_def split: option.splits)

lemma readSessionMeta_writeSessionMeta [simp]:
  "readSessionMeta uid (writeSessionMeta uid m w) = Some m"
  by (auto simp: readSessionMeta_def writeSessionMeta_def mkdirSession_def Let_def split: option.splits)

lemma chunkFiles_sessions_update [simp]:
  "chunkFiles u (w\<lparr>sessions := x\<rparr>) = chunkFiles u w"
  by (simp add: chunkFiles_def)

lemma chunkFiles_final_update [simp]:
  "chunkFiles u (w\<lparr>final := x\<rparr>) = chunkFiles u w"
  by (simp add: chunkFiles_def)

lemma lookupSession_SomeD:
  assumes "lookupSession uid w = Some (s, w1)"
  shows "tmp w1 = tmp w" "final w1 = final w" "liveStreams w1 = liveStreams w"
    "sessions w1 = (sessions w)(uid \<mapsto> s)"
  using assms by (auto simp: lookupSession_def split: option.splits)

lemma lookupSession_registered:
  "sessions w uid = Some s \<Longrightarrow> lookupSession uid w = Some (s, w)"
  by (simp add: lookupSession_def)

lemma mergeLoop_all_present:
  assumes "\<And>i. i < n \<Longrightarrow> dir (of_nat i) = Some (f i)"
  shows "k \<le> n \<Longrightarrow> mergeLoop (js_nat n) dir k out = (None, out @ concat (map f [k..<n]))"
proof (induction "n - k" arbitrary: k out)
  case 0
  then show ?case by (simp add: mergeLoop.simps)
next
  case (Suc d)
  then have kn: "k < n" by simp
  have "mergeLoop (js_nat n) dir k out = mergeLoop (js_nat n) dir (Suc k) (out @ f k)"
    using kn assms[of k] by (subst mergeLoop.simps) simp
  also have "\<dots> = (None, (out @ f k) @ concat (map f [Suc k..<n]))"
    using Suc kn by (intro Suc.hyps(1)) auto
  finally show ?case using kn by (simp add: upt_conv_Cons)
qed

lemma set_recordChunk [simp]: "set (recordChunk i rc) = insert i (set rc)"
  by (auto simp: recordChunk_def)

lemma distinct_recordChunk [simp]: "distinct (recordChunk i rc) = distinct rc"
  by (auto simp: recordChunk_def)

lemma length_recordChunk:
  "length (recordChunk i rc) = (if i \<in> set rc then length rc else Suc (length rc))"
  by (simp add: recordChunk_def)

lemma recordChunk_idem [simp]: "recordChunk i (recordChunk i rc) = recordChunk i rc"
  by (simp add: recordChunk_def)

lemma tmp_writeChunk_other [simp]: "u \<noteq> uid \<Longrightarrow> tmp (writeChunk uid i b w) u = tmp w u"
  by (auto simp: writeChunk_def mkdirSession_def Let_def split: option.splits)

lemma tmp_writeSessionMeta_other [simp]: "u \<noteq> uid \<Longrightarrow> tmp (writeSessionMeta uid m w) u = tmp w u"
  by (auto simp: writeSessionMeta_def mkdirSession_def Let_def split: option.splits)

lemma chunkFiles_cong: "tmp w1 = tmp w \<Longrightarrow> chunkFiles u w1 = chunkFiles u w"
  by (simp add: chunkFiles_def)

text \<open>A chunk request that finds the session and does not complete it.\<close>

lemma uploadChunk_incomplete:
  assumes look: "lookupSession uid w = Some (s, w1)"
    and i0: "0 \<le> i"
    and rc': "rc' = recordChunk i (receivedChunks s)"
    and ne: "js_nat (length rc') \<noteq> totalChunks s"
  shows "uploadChunk now e uid (Num i) (Some b) w =
           (ChunkAccepted uid i (length rc') (totalChunks s) False None,
            writeSessionMeta uid (s\<lparr>receivedChunks := rc'\<rparr>)
              ((writeChunk uid i b w1)\<lparr>sessions := (sessions w1)(uid \<mapsto> s\<lparr>receivedChunks := rc'\<rparr>)\<rparr>))"
  using assms by (simp add: uploadChunk_def Let_def)

text \<open>A chunk request that completes the session, all chunk files being there.\<close>

lemma uploadChunk_complete:
  assumes look: "lookupSession uid w = Some (s, w1)"
    and i0: "0 \<le> i"
    and rc': "rc' = recordChunk i (receivedChunks s)"
    and eq: "js_nat (length rc') = totalChunks s"
    and ml: "mergeLoop (totalChunks s) (chunkFiles (uploadId s) (writeChunk uid i b w1)) 0 [] = (None, out)"
  shows "uploadChunk now False uid (Num i) (Some b) w =
           (ChunkAccepted uid i (length rc') (totalChunks s) True
              (Some (artifactName now (originalName s))),
            (writeChunk uid i b w1)
              \<lparr>sessions := (sessions w1)(uid := None),
               tmp := (tmp (writeChunk uid i b w1))(uid := None),
               final := AList.update (artifactName now (originalName s))
                          \<lparr>content = out, mtime = now\<rparr> (final w)\<rparr>)"
  using assms lookupSession_SomeD[OF look]
  by (simp add: uploadChunk_def mergeChunks_def Let_def)

lemma restart_fields [simp]:
  "sessions (restart w) = Map.empty"
  "liveStreams (restart w) = Map.empty"
  "tmp (restart w) = tmp w"
  "final (restart w) = final w"
  by (simp_all add: restart_def)

lemma submitAll_Cons:
  "submitAll uid ((now, e, idx, file) # rest) w =
     (fst (handle (UploadChunk now e uid idx file) w)
        # fst (submitAll uid rest (snd (handle (UploadChunk now e uid idx file) w))),
      snd (submitAll uid rest (snd (handle (UploadChunk now e uid idx file) w))))"
  by (simp add: Let_def split: prod.splits)

lemma run_Cons:
  "run (r # rs) w = (fst (handle r w) # fst (run rs (snd (handle r w))), snd (run rs (snd (handle r w))))"
  by (simp add: Let_def split: prod.splits)

declare run.simps(2) [simp del]

lemma handle_fst [simp]: "fst (handle r w) = fst (route r w)"
  by (cases "route r w") (simp add: handle_def)

lemma handle_snd:
  "snd (handle r w) =
     (if processEnds (fst (route r w)) then restart (snd (route r w)) else snd (route r w))"
  by (cases "route r w") (simp add: handle_def)

lemma handle_alive: "\<not> processEnds (fst (route r w)) \<Longrightarrow> handle r w = route r w"
  by (cases "route r w") (simp add: handle_def)

lemma handle_chunk:
  "\<not> processEnds (fst (uploadChunk now e uid idx part w)) \<Longrightarrow>
     handle (UploadChunk now e uid idx part) w = uploadChunk now e uid idx part w"
  using handle_alive[of "UploadChunk now e uid idx part" w] by simp

lemma handle_final [simp]: "final (snd (handle r w)) = final (snd (route r w))"
  by (simp add: handle_snd)

lemma handle_tmp [simp]: "tmp (snd (handle r w)) = tmp (snd (route r w))"
  by (simp add: handle_snd)

lemma length_of_nat_image:
  assumes "distinct (rc :: rat list)" "set rc = of_nat ` R"
  shows "length rc = card R"
proof -
  have "length rc = card (set rc)" using assms(1) by (simp add: distinct_card)
  also have "\<dots> = card R" unfolding assms(2) by (rule card_image) (simp add: inj_on_def)
  finally show ?thesis .
qed

lemma run_chunks:
  fixes P :: "nat \<Rightarrow> bytes"
  assumes "subs \<noteq> []"
    and "lookupSession uid w = Some (s, w1)"
    and "uploadId s = uid" and "totalChunks s = js_nat N"
    and "distinct (receivedChunks s)" and "set (receivedChunks s) = of_nat ` R"
    and "\<And>i. i \<in> R \<Longrightarrow> chunkFiles uid w (of_nat i) = Some (P i)"
    and "distinct (map (\<lambda>c. fst (snd c)) subs)"
    and "set (map (\<lambda>c. fst (snd c)) subs) \<inter> R = {}"
    and "R \<union> set (map (\<lambda>c. fst (snd c)) subs) = {..<N}"
    and "\<And>t i b. (t, i, b) \<in> set subs \<Longrightarrow> P i = b"
  shows "submitAll uid (map chunkReq subs) w =
           (map (chunkAck uid (originalName s) N) (enumerate (Suc (length (receivedChunks s))) subs),
            w\<lparr>sessions := (sessions w)(uid := None),
              tmp := (tmp w)(uid := None),
              final := AList.update (artifactName (fst (last subs)) (originalName s))
                         \<lparr>content = concat (map P [0..<N]), mtime = fst (last subs)\<rparr> (final w)\<rparr>)"
  using assms
proof (induction subs arbitrary: w s w1 R)
  case Nil
  then show ?case by simp
next
  case (Cons c rest)
  obtain t i b where c: "c = (t, i, b)" by (cases c)
  let ?rc = "receivedChunks s"
  let ?rc' = "recordChunk (of_nat i) ?rc"
  let ?s' = "s\<lparr>receivedChunks := ?rc'\<rparr>"
  have look: "lookupSession uid w = Some (s, w1)" by (rule Cons.prems(2))
  note w1 = lookupSession_SomeD[OF look]
  have iR: "i \<notin> R" using Cons.prems(9) c by auto
  have inew: "of_nat i \<notin> set ?rc"
    using iR Cons.prems(6) by auto
  have lenrc: "length ?rc = card R" using Cons.prems(5,6) by (rule length_of_nat_image)
  have len': "length ?rc' = Suc (card R)" using inew lenrc by (simp add: length_recordChunk)
  have finR: "finite R" using Cons.prems(10) by (metis finite_Un finite_lessThan)
  have cardN: "Suc (card R) + length rest = N"
  proof -
    have d: "distinct (map (\<lambda>c. fst (snd c)) (c # rest))" by (rule Cons.prems(8))
    have "card (R \<union> set (map (\<lambda>c. fst (snd c)) (c # rest))) = card R + card (set (map (\<lambda>c. fst (snd c)) (c # rest)))"
      using finR Cons.prems(9) by (intro card_Un_disjoint) auto
    also have "card (set (map (\<lambda>c. fst (snd c)) (c # rest))) = length (c # rest)"
      using distinct_card[OF d] by simp
    finally show ?thesis using Cons.prems(10) by simp
  qed
  have req: "chunkReq c = (t, False, js_nat i, Some b)" by (simp add: chunkReq_def c)
  show ?case
  proof (cases "rest = []")
    case True
    have eq: "js_nat (length ?rc') = totalChunks s"
      using cardN True len' Cons.prems(4) by simp
    have all: "\<And>j. j < N \<Longrightarrow> ((chunkFiles uid w)(of_nat i \<mapsto> b)) (of_nat j) = Some (P j)"
    proof -
      fix j assume "j < N"
      then have "j \<in> R \<or> j = i" using Cons.prems(10) True c by auto
      then show "((chunkFiles uid w)(of_nat i \<mapsto> b)) (of_nat j) = Some (P j)"
        using Cons.prems(7) Cons.prems(11)[of t i b] c by auto
    qed
    have cf: "chunkFiles (uploadId s) (writeChunk uid (of_nat i) b w1) = (chunkFiles uid w)(of_nat i \<mapsto> b)"
      using Cons.prems(3) chunkFiles_cong[OF w1(1)] by simp
    have ml: "mergeLoop (totalChunks s) (chunkFiles (uploadId s) (writeChunk uid (of_nat i) b w1)) 0 []
                = (None, concat (map P [0..<N]))"
    proof -
      have "mergeLoop (js_nat N) ((chunkFiles uid w)(of_nat i \<mapsto> b)) 0 []
              = (None, [] @ concat (map P [0..<N]))"
        by (rule mergeLoop_all_present[where f = P]) (simp_all add: all del: fun_upd_apply)
      then show ?thesis unfolding cf Cons.prems(4) by simp
    qed
    have step: "uploadChunk t False uid (Num (of_nat i)) (Some b) w =
           (ChunkAccepted uid (of_nat i) (length ?rc') (totalChunks s) True
              (Some (artifactName t (originalName s))),
            (writeChunk uid (of_nat i) b w1)
              \<lparr>sessions := (sessions w1)(uid := None),
               tmp := (tmp (writeChunk uid (of_nat i) b w1))(uid := None),
               final := AList.update (artifactName t (originalName s))
                          \<lparr>content = concat (map P [0..<N]), mtime = t\<rparr> (final w)\<rparr>)"
      by (rule uploadChunk_complete[OF look _ refl eq ml]) simp
    have hstep: "handle (UploadChunk t False uid (Num (of_nat i)) (Some b)) w
                   = uploadChunk t False uid (Num (of_nat i)) (Some b) w"
      by (rule handle_chunk) (simp add: step)
    have tmpeq: "(tmp (writeChunk uid (of_nat i) b w1))(uid := None) = (tmp w)(uid := None)"
      using w1(1) by (auto simp: fun_eq_iff)
    have weq: "(writeChunk uid (of_nat i) b w1)
              \<lparr>sessions := (sessions w1)(uid := None),
               tmp := (tmp (writeChunk uid (of_nat i) b w1))(uid := None),
               final := AList.update (artifactName t (originalName s))
                          \<lparr>content = concat (map P [0..<N]), mtime = t\<rparr> (final w)\<rparr>
            = w\<lparr>sessions := (sessions w)(uid := None),
              tmp := (tmp w)(uid := None),
              final := AList.update (artifactName t (originalName s))
                         \<lparr>content = concat (map P [0..<N]), mtime = t\<rparr> (final w)\<rparr>"
      unfolding tmpeq using w1 by (intro world.equality) simp_all
    have ack: "chunkAck uid (originalName s) N (Suc (length ?rc), c)
                  = ChunkAccepted uid (of_nat i) (length ?rc') (totalChunks s) True
                      (Some (artifactName t (originalName s)))"
      using eq len' lenrc Cons.prems(4) by (simp add: chunkAck_def c)
    have "submitAll uid (map chunkReq (c # rest)) w
            = ([chunkAck uid (originalName s) N (Suc (length ?rc), c)],
               w\<lparr>sessions := (sessions w)(uid := None),
                 tmp := (tmp w)(uid := None),
                 final := AList.update (artifactName t (originalName s))
                            \<lparr>content = concat (map P [0..<N]), mtime = t\<rparr> (final w)\<rparr>)"
      unfolding True list.map req submitAll_Cons js_nat_def[of i] hstep step weq ack
      by (simp only: fst_conv snd_conv submitAll.simps)
    moreover have "fst (last (c # rest)) = t" using True c by simp
    ultimately show ?thesis
      by (simp only: True enumerate_simps list.map)
  next
    case False
    have ne: "js_nat (length ?rc') \<noteq> totalChunks s"
      using cardN False len' Cons.prems(4) by (cases rest) auto
    let ?w2 = "writeSessionMeta uid ?s'
              ((writeChunk uid (of_nat i) b w1)\<lparr>sessions := (sessions w1)(uid \<mapsto> ?s')\<rparr>)"
    have step: "uploadChunk t False uid (Num (of_nat i)) (Some b) w =
           (ChunkAccepted uid (of_nat i) (length ?rc') (totalChunks s) False None, ?w2)"
      by (rule uploadChunk_incomplete[OF look _ refl ne]) simp
    have hstep: "handle (UploadChunk t False uid (Num (of_nat i)) (Some b)) w
                   = uploadChunk t False uid (Num (of_nat i)) (Some b) w"
      by (rule handle_chunk) (simp add: step)
    have look2: "lookupSession uid ?w2 = Some (?s', ?w2)"
      by (rule lookupSession_registered) simp
    have cf2: "chunkFiles uid ?w2 = (chunkFiles uid w)(of_nat i \<mapsto> b)"
      using chunkFiles_cong[OF w1(1)] by simp
    have IH: "submitAll uid (map chunkReq rest) ?w2 =
           (map (chunkAck uid (originalName ?s') N) (enumerate (Suc (length (receivedChunks ?s'))) rest),
            ?w2\<lparr>sessions := (sessions ?w2)(uid := None),
              tmp := (tmp ?w2)(uid := None),
              final := AList.update (artifactName (fst (last rest)) (originalName ?s'))
                         \<lparr>content = concat (map P [0..<N]), mtime = fst (last rest)\<rparr> (final ?w2)\<rparr>)"
    proof (rule Cons.IH[OF False look2, where R = "insert i R"])
      show "uploadId ?s' = uid" using Cons.prems(3) by simp
      show "totalChunks ?s' = js_nat N" using Cons.prems(4) by simp
      show "distinct (receivedChunks ?s')" using Cons.prems(5) by simp
      show "set (receivedChunks ?s') = of_nat ` insert i R" using Cons.prems(6) by simp
      show "\<And>j. j \<in> insert i R \<Longrightarrow> chunkFiles uid ?w2 (of_nat j) = Some (P j)"
        unfolding cf2 using Cons.prems(7) Cons.prems(11)[of t i b] c by auto
      show "distinct (map (\<lambda>c. fst (snd c)) rest)" using Cons.prems(8) by simp
      show "set (map (\<lambda>c. fst (snd c)) rest) \<inter> insert i R = {}"
        using Cons.prems(8,9) c by auto
      show "insert i R \<union> set (map (\<lambda>c. fst (snd c)) rest) = {..<N}"
        using Cons.prems(10) c by auto
      show "\<And>t i b. (t, i, b) \<in> set rest \<Longrightarrow> P i = b"
        using Cons.prems(11) by auto
    qed
    have tmpeq: "(tmp ?w2)(uid := None) = (tmp w)(uid := None)"
      using w1(1) by (auto simp: fun_eq_iff)
    have weq: "?w2\<lparr>sessions := (sessions ?w2)(uid := None),
              tmp := (tmp ?w2)(uid := None),
              final := AList.update (artifactName (fst (last rest)) (originalName s))
                         \<lparr>content = concat (map P [0..<N]), mtime = fst (last rest)\<rparr> (final ?w2)\<rparr>
          = w\<lparr>sessions := (sessions w)(uid := None),
              tmp := (tmp w)(uid := None),
              final := AList.update (artifactName (fst (last rest)) (originalName s))
                         \<lparr>content = concat (map P [0..<N]), mtime = fst (last rest)\<rparr> (final w)\<rparr>"
      unfolding tmpeq using w1 by (intro world.equality) simp_all
    have ackne: "chunkAck uid (originalName s) N (Suc (length ?rc), c)
                  = ChunkAccepted uid (of_nat i) (length ?rc') (totalChunks s) False None"
      using ne len' lenrc Cons.prems(4) by (simp add: chunkAck_def c)
    have lenS: "Suc (length (receivedChunks ?s')) = Suc (Suc (length ?rc))"
      using len' lenrc by simp
    have on: "originalName ?s' = originalName s" by simp
    have IH2: "submitAll uid (map chunkReq rest) ?w2 =
           (map (chunkAck uid (originalName s) N) (enumerate (Suc (Suc (length ?rc))) rest),
            w\<lparr>sessions := (sessions w)(uid := None),
              tmp := (tmp w)(uid := None),
              final := AList.update (artifactName (fst (last rest)) (originalName s))
                         \<lparr>content = concat (map P [0..<N]), mtime = fst (last rest)\<rparr> (final w)\<rparr>)"
      using IH unfolding on lenS weq .
    have "submitAll uid (map chunkReq (c # rest)) w
            = (chunkAck uid (originalName s) N (Suc (length ?rc), c)
                 # map (chunkAck uid (originalName s) N) (enumerate (Suc (Suc (length ?rc))) rest),
               w\<lparr>sessions := (sessions w)(uid := None),
                 tmp := (tmp w)(uid := None),
                 final := AList.update (artifactName (fst (last rest)) (originalName s))
                         \<lparr>content = concat (map P [0..<N]), mtime = fst (last rest)\<rparr> (final w)\<rparr>)"
      unfolding list.map req submitAll_Cons js_nat_def[of i] hstep step fst_conv snd_conv IH2 ackne
      by (rule refl)
    moreover have "last (c # rest) = last rest" using False by simp
    ultimately show ?thesis
      by (simp only: enumerate_simps list.map)
  qed
qed

lemma uploadChunk_mergeRan_iff:
  "mergeRan (fst (uploadChunk now e uid index file w)) \<longleftrightarrow>
     (\<exists>b i s w1. file = Some b \<and> index = Num i \<and> 0 \<le> i \<and> lookupSession uid w = Some (s, w1) \<and>
        js_nat (length (recordChunk i (receivedChunks s))) = totalChunks s)"
  by (auto simp: uploadChunk_def Let_def split: option.splits jsnum.splits prod.splits sum.splits)

lemma complete_chunkAck [simp]:
  "completeFlag (chunkAck uid oname N (k, c)) = (k = N)"
  "mergeRan (chunkAck uid oname N (k, c)) = (k = N)"
  by (simp_all add: chunkAck_def split: prod.splits)

lemma flags_enumerate:
  assumes f: "\<And>j c. f (j, c) = (j = N)"
  shows "subs \<noteq> [] \<Longrightarrow> k + length subs = Suc N \<Longrightarrow>
         map f (enumerate k subs) = replicate (length subs - 1) False @ [True]"
proof (induction subs arbitrary: k)
  case Nil
  then show ?case by simp
next
  case (Cons c rest)
  show ?case
  proof (cases "rest = []")
    case True
    then show ?thesis using Cons.prems f by simp
  next
    case False
    then have "map f (enumerate (Suc k) rest) = replicate (length rest - 1) False @ [True]"
      using Cons.prems by (intro Cons.IH) auto
    moreover have "f (k, c) = False" using Cons.prems False f by (cases rest) auto
    moreover have "replicate (length (c # rest) - 1) False = False # replicate (length rest - 1) False"
      using False by (cases rest) auto
    ultimately show ?thesis by simp
  qed
qed

lemma last_enumerate:
  "subs \<noteq> [] \<Longrightarrow> last (map h (enumerate k subs)) = h (k + length subs - 1, last subs)"
proof (induction subs arbitrary: k)
  case Nil
  then show ?case by simp
next
  case (Cons c rest)
  show ?case
  proof (cases "rest = []")
    case True
    then show ?thesis by simp
  next
    case False
    then have "enumerate (Suc k) rest \<noteq> []" by (cases rest) auto
    then show ?thesis using Cons.IH[OF False, of "Suc k"] False by simp
  qed
qed

lemma perm_length:
  assumes "distinct (map (\<lambda>c. fst (snd c)) subs)" "set (map (\<lambda>c. fst (snd c)) subs) = {..<N}"
  shows "length subs = N"
  using distinct_card[OF assms(1)] assms(2) by simp

lemma safeName_clip: "safeName ''clip.mp4'' = ''clip.mp4''"
  by (simp add: safeName_def safe_char_def)

lemma clip_lookup: "lookupSession ''u1'' clipWorld = Some (clipSession, clipWorld)"
  by (simp add: clipWorld_def clipSession_def uploadInit_def lookupSession_def safeName_clip Let_def)

lemma show103: "show_nat 103 = ''103''"
  by (simp add: show_nat.simps digit_char_def)

lemma safeName_a: "safeName ''a'' = ''a''"
  by (simp add: safeName_def safe_char_def)

lemma one_lookup: "lookupSession ''u1'' oneWorld = Some (oneSession, oneWorld)"
  by (simp add: oneWorld_def oneSession_def uploadInit_def lookupSession_def safeName_a Let_def)

lemma mergeLoop_error:
  "fst (mergeLoop limit dir i out) = Some err \<Longrightarrow> \<exists>k. err = ENOENT k"
proof (induction limit dir i out rule: mergeLoop.induct)
  case (1 limit dir i out)
  show ?case
  proof (cases "js_less (js_nat i) limit")
    case False
    then show ?thesis using "1.prems" by (subst (asm) mergeLoop.simps) simp
  next
    case True
    show ?thesis
    proof (cases "dir (of_nat i)")
      case None
      then show ?thesis using "1.prems" True by (subst (asm) mergeLoop.simps) auto
    next
      case (Some b)
      then have "fst (mergeLoop limit dir (Suc i) (out @ b)) = Some err"
        using "1.prems" True by (subst (asm) mergeLoop.simps) simp
      then show ?thesis by (rule "1.IH"[OF True Some])
    qed
  qed
qed

subsection \<open>Byte order of the merged artifact\<close>

text \<open>
  Claim C1, as stated, at \<open>N = 0\<close>: a session declared with \<open>totalChunks = 0\<close> has no
  chunk to submit, so no request reaches \<open>mergeChunks\<close>; after its (empty) sequence of
  submissions the output area holds no file, hence no empty artifact either.
\<close>

theorem zero_chunks_no_artifact:
  "submitAll ''u0'' (map chunkReq []) zeroWorld = ([], zeroWorld) \<and> final zeroWorld = []"
  by (simp add: zeroWorld_def uploadInit_def Let_def emptyWorld_def)

text \<open>
  Claim C1, amended to \<open>N \<ge> 1\<close>: for a session known to the server (registry or
  snapshot) under its own id, with \<open>totalChunks = N\<close>, \<open>N \<ge> 1\<close>, and nothing received
  yet, let the chunks
  \<open>0..N-1\<close> be submitted one request after the other in any order (\<open>subs\<close> lists them
  as time, index, payload; the indices are a permutation of \<open>0..N-1\<close>), the output
  stream reporting no error. Then the last request is answered with
  \<open>complete = true\<close> and the artifact name, and the file of that name in
  \<open>uploads/final\<close> holds the payloads concatenated in ascending index order, whatever
  their sizes.
\<close>

theorem merge_in_index_order:
  assumes look: "lookupSession uid w = Some (s, w1)"
    and own: "uploadId s = uid"
    and fresh: "receivedChunks s = []"
    and total: "totalChunks s = js_nat N"
    and pos: "0 < N"
    and dist: "distinct (map (\<lambda>c. fst (snd c)) subs)"
    and all: "set (map (\<lambda>c. fst (snd c)) subs) = {..<N}"
  shows "last (fst (submitAll uid (map chunkReq subs) w)) =
           ChunkAccepted uid (of_nat (fst (snd (last subs)))) N (js_nat N) True
             (Some (artifactName (fst (last subs)) (originalName s))) \<and>
         map_of (final (snd (submitAll uid (map chunkReq subs) w)))
             (artifactName (fst (last subs)) (originalName s)) =
           Some \<lparr>content = concat (map (\<lambda>i. the (map_of (map snd subs) i)) [0..<N]),
                 mtime = fst (last subs)\<rparr>"
proof -
  have len: "length subs = N" using dist all by (rule perm_length)
  then have ne: "subs \<noteq> []" using pos by auto
  have P: "\<And>t i b. (t, i, b) \<in> set subs \<Longrightarrow> the (map_of (map snd subs) i) = b"
  proof -
    fix t i b assume "(t, i, b) \<in> set subs"
    then have "(i, b) \<in> set (map snd subs)" by force
    moreover have "distinct (map fst (map snd subs))" using dist by (simp add: comp_def)
    ultimately show "the (map_of (map snd subs) i) = b" by simp
  qed
  have run: "submitAll uid (map chunkReq subs) w =
           (map (chunkAck uid (originalName s) N) (enumerate (Suc (length (receivedChunks s))) subs),
            w\<lparr>sessions := (sessions w)(uid := None),
              tmp := (tmp w)(uid := None),
              final := AList.update (artifactName (fst (last subs)) (originalName s))
                         \<lparr>content = concat (map (\<lambda>i. the (map_of (map snd subs) i)) [0..<N]),
                          mtime = fst (last subs)\<rparr> (final w)\<rparr>)"
    by (rule run_chunks[OF ne look own total, where R = "{}"]) (use fresh dist all P in auto)
  have lastr: "last (map (chunkAck uid (originalName s) N) (enumerate (Suc 0) subs))
                 = chunkAck uid (originalName s) N (N, last subs)"
    using len by (simp add: last_enumerate[OF ne])
  show ?thesis
    unfolding run fst_conv snd_conv fresh list.size lastr
    by (simp add: chunkAck_def js_nat_def update_conv split: prod.splits)
qed

text \<open>
  Claim C1, the example of the specification: chunks 2, 0, 1 of \<open>clip.mp4\<close> arrive in
  this order and the artifact reads \<open>AAABBC\<close>.
\<close>

theorem merge_in_index_order_witness:
  "lookupSession ''u1'' clipWorld = Some (clipSession, clipWorld) \<and>
   map_of (final (snd (submitAll ''u1''
       (map chunkReq [(101, 2, ''C''), (102, 0, ''AAA''), (103, 1, ''BB'')]) clipWorld)))
     ''103-clip.mp4'' = Some \<lparr>content = ''AAABBC'', mtime = 103\<rparr>"
proof -
  have set3: "{..<3::nat} = {2, 0, 1}" by auto
  have upt3: "[0..<3] = [0, 1, 2::nat]" by (simp add: upt_rec)
  show ?thesis
    using merge_in_index_order[of "''u1''" clipWorld clipSession clipWorld 3
        "[(101, 2, ''C''), (102, 0, ''AAA''), (103, 1, ''BB'')]"]
    by (simp add: clip_lookup set3 upt3 artifactName_def show103 safeName_clip clipSession_def)
qed

subsection \<open>Requests refused before anything is written\<close>

text \<open>
  Claim C8: a chunk request without the file part is answered 400; one whose index is
  \<open>NaN\<close> (not a number) or negative is answered 400; one with a file and a valid index
  that names a session found neither in the registry nor as a snapshot is answered
  404. In the three cases the world after the request is the world before it: no
  session state, chunk file or metadata is touched.
\<close>

theorem chunk_errors_leave_world:
  "uploadChunk now e uid index None w = (BadRequest ''chunk file is required'', w) \<and>
   (index = NaN \<or> js_less index (Num 0) \<longrightarrow>
      uploadChunk now e uid index (Some b) w = (BadRequest ''valid chunk index is required'', w)) \<and>
   (sessions w uid = None \<and> readSessionMeta uid w = None \<and>
      \<not> (index = NaN \<or> js_less index (Num 0)) \<longrightarrow>
      uploadChunk now e uid index (Some b) w = (NotFound ''upload session not found'', w))"
  by (cases index) (auto simp: uploadChunk_def lookupSession_def)

text \<open>Claim C8, on the example world: no file, \<open>NaN\<close>, index \<open>-1\<close>, unknown session.\<close>

theorem chunk_errors_leave_world_witness:
  "uploadChunk 101 False ''u1'' (Num 0) None clipWorld = (BadRequest ''chunk file is required'', clipWorld) \<and>
   uploadChunk 101 False ''u1'' NaN (Some ''AAA'') clipWorld
     = (BadRequest ''valid chunk index is required'', clipWorld) \<and>
   uploadChunk 101 False ''u1'' (Num (- 1)) (Some ''AAA'') clipWorld
     = (BadRequest ''valid chunk index is required'', clipWorld) \<and>
   uploadChunk 101 False ''u2'' (Num 0) (Some ''AAA'') clipWorld
     = (NotFound ''upload session not found'', clipWorld)"
proof -
  have none: "sessions clipWorld ''u2'' = None \<and> readSessionMeta ''u2'' clipWorld = None"
    by (simp add: clipWorld_def uploadInit_def Let_def emptyWorld_def readSessionMeta_def)
  show ?thesis
    using chunk_errors_leave_world[of 101 False "''u1''" "Num 0" clipWorld "''AAA''"]
      chunk_errors_leave_world[of 101 False "''u1''" NaN clipWorld "''AAA''"]
      chunk_errors_leave_world[of 101 False "''u1''" "Num (- 1)" clipWorld "''AAA''"]
      chunk_errors_leave_world[of 101 False "''u2''" "Num 0" clipWorld "''AAA''"]
      none
    by simp
qed

subsection \<open>A session declared with no chunks\<close>

lemma recordChunk_nonempty: "recordChunk i rc \<noteq> []"
  using set_recordChunk[of i rc] by (metis empty_iff insertI1 list.set(1))

lemma zero_total_step:
  assumes look: "lookupSession uid w = Some (s, w1)" and zero: "totalChunks s = js_nat 0"
  shows "((\<exists>m. fst (uploadChunk now e uid index part w) = BadRequest m) \<or>
          (\<exists>i n. fst (uploadChunk now e uid index part w) = ChunkAccepted uid i n (js_nat 0) False None \<and> 1 \<le> n)) \<and>
         final (snd (uploadChunk now e uid index part w)) = final w \<and>
         (\<exists>s' w1'. lookupSession uid (snd (uploadChunk now e uid index part w)) = Some (s', w1') \<and>
                    totalChunks s' = js_nat 0)"
proof (cases "\<exists>b i. part = Some b \<and> index = Num i \<and> 0 \<le> i")
  case False
  then have "snd (uploadChunk now e uid index part w) = w \<and>
             (\<exists>m. fst (uploadChunk now e uid index part w) = BadRequest m)"
    by (auto simp: uploadChunk_def split: option.splits jsnum.splits)
  then show ?thesis using look zero by auto
next
  case True
  then obtain b i where f: "part = Some b" and ix: "index = Num i" and i0: "0 \<le> i" by blast
  let ?rc' = "recordChunk i (receivedChunks s)"
  have pos: "1 \<le> length ?rc'" using recordChunk_nonempty[of i "receivedChunks s"]
    by (cases ?rc') auto
  have ne: "js_nat (length ?rc') \<noteq> totalChunks s"
    unfolding zero using recordChunk_nonempty[of i "receivedChunks s"] by simp
  note step = uploadChunk_incomplete[OF look i0 refl ne, of now e b]
  note w1 = lookupSession_SomeD[OF look]
  have "lookupSession uid (snd (uploadChunk now e uid index part w))
          = Some (s\<lparr>receivedChunks := ?rc'\<rparr>, snd (uploadChunk now e uid index part w))"
    unfolding f ix step snd_conv by (rule lookupSession_registered) simp
  moreover have "final (snd (uploadChunk now e uid index part w)) = final w"
    unfolding f ix step snd_conv using w1 by simp
  moreover have "fst (uploadChunk now e uid index part w)
                   = ChunkAccepted uid i (length ?rc') (js_nat 0) False None"
    unfolding f ix step fst_conv zero ..
  ultimately show ?thesis using pos zero by auto
qed

lemma zero_total_run:
  assumes "lookupSession uid w = Some (s, w1)" and "totalChunks s = js_nat 0"
  shows "(\<forall>r \<in> set (fst (submitAll uid reqs w)).
            (\<exists>m. r = BadRequest m) \<or> (\<exists>i n. r = ChunkAccepted uid i n (js_nat 0) False None \<and> 1 \<le> n)) \<and>
         final (snd (submitAll uid reqs w)) = final w"
  using assms
proof (induction reqs arbitrary: w s w1)
  case Nil
  then show ?case by simp
next
  case (Cons q rest)
  obtain now e index part where q: "q = (now, e, index, part)" by (cases q)
  let ?r = "fst (uploadChunk now e uid index part w)"
  let ?w = "snd (uploadChunk now e uid index part w)"
  from zero_total_step[OF Cons.prems, of now e index part]
  have r: "(\<exists>m. ?r = BadRequest m) \<or> (\<exists>i n. ?r = ChunkAccepted uid i n (js_nat 0) False None \<and> 1 \<le> n)"
    and fin: "final ?w = final w"
    and inv: "\<exists>s' w1'. lookupSession uid ?w = Some (s', w1') \<and> totalChunks s' = js_nat 0"
    using Cons.prems by auto
  from inv obtain s' w1' where "lookupSession uid ?w = Some (s', w1')" "totalChunks s' = js_nat 0"
    by blast
  have alive: "handle (UploadChunk now e uid index part) w = uploadChunk now e uid index part w"
    by (rule handle_chunk) (use r in auto)
  from Cons.IH[OF \<open>lookupSession uid ?w = Some (s', w1')\<close> \<open>totalChunks s' = js_nat 0\<close>] r fin show ?case
    unfolding q submitAll_Cons alive by simp
qed

text \<open>
  Claim C10: for a session created with \<open>totalChunks = 0\<close>, the status request right
  after the init reports \<open>complete = true\<close> with an empty \<open>receivedChunks\<close>; and
  whatever chunk requests are then sent for it, none runs the merge: each is answered
  400, or 202 with \<open>complete = false\<close>, no output and a received count of at least 1
  (which is never 0), and \<open>uploads/final\<close> stays as it was.
\<close>

theorem zero_chunk_session_never_merges:
  assumes "fname \<noteq> []"
  shows "fst (uploadStatus uid (snd (uploadInit now uid (Some fname) ts (Some (js_nat 0)) mime w)))
           = StatusOk uid (js_nat 0) [] True \<and>
         (\<forall>r \<in> set (fst (submitAll uid reqs (snd (uploadInit now uid (Some fname) ts (Some (js_nat 0)) mime w)))).
            \<not> mergeRan r \<and>
            ((\<exists>m. r = BadRequest m) \<or> (\<exists>i n. r = ChunkAccepted uid i n (js_nat 0) False None \<and> 1 \<le> n))) \<and>
         final (snd (submitAll uid reqs (snd (uploadInit now uid (Some fname) ts (Some (js_nat 0)) mime w))))
           = final w"
proof -
  let ?s = "\<lparr>uploadId = uid, originalName = safeName fname,
             totalSize = (case ts of None \<Rightarrow> Num 0 | Some n \<Rightarrow> n),
             totalChunks = js_nat 0,
             mimeType = (case mime of None \<Rightarrow> ''application/octet-stream'' | Some t \<Rightarrow> t),
             createdAt = now, receivedChunks = []\<rparr>"
  let ?w = "snd (uploadInit now uid (Some fname) ts (Some (js_nat 0)) mime w)"
  have w: "?w = writeSessionMeta uid ?s (w\<lparr>sessions := (sessions w)(uid \<mapsto> ?s)\<rparr>)"
    using assms by (simp add: uploadInit_def Let_def)
  have look: "lookupSession uid ?w = Some (?s, ?w)"
    unfolding w by (rule lookupSession_registered) simp
  have fin: "final ?w = final w" unfolding w by simp
  have st: "fst (uploadStatus uid ?w) = StatusOk uid (js_nat 0) [] True"
    by (simp add: uploadStatus_def look)
  have tz: "totalChunks ?s = js_nat 0" by simp
  note run = zero_total_run[OF look tz, of reqs]
  have shape: "\<forall>r \<in> set (fst (submitAll uid reqs ?w)).
            \<not> mergeRan r \<and>
            ((\<exists>m. r = BadRequest m) \<or> (\<exists>i n. r = ChunkAccepted uid i n (js_nat 0) False None \<and> 1 \<le> n))"
  proof
    fix r assume "r \<in> set (fst (submitAll uid reqs ?w))"
    with run have d: "(\<exists>m. r = BadRequest m) \<or> (\<exists>i n. r = ChunkAccepted uid i n (js_nat 0) False None \<and> 1 \<le> n)"
      by blast
    then have "\<not> mergeRan r" by (elim disjE exE conjE) simp_all
    with d show "\<not> mergeRan r \<and>
            ((\<exists>m. r = BadRequest m) \<or> (\<exists>i n. r = ChunkAccepted uid i n (js_nat 0) False None \<and> 1 \<le> n))"
      by (rule conjI[rotated])
  qed
  have "final (snd (submitAll uid reqs ?w)) = final w"
    using run fin by (simp only:)
  with st shape show ?thesis by (intro conjI)
qed

text \<open>Claim C10, on a session \<open>u0\<close> that receives the chunks 0 and 7.\<close>

theorem zero_chunk_session_never_merges_witness:
  "''empty.bin'' \<noteq> [] \<and>
   fst (uploadStatus ''u0'' zeroWorld) = StatusOk ''u0'' (js_nat 0) [] True \<and>
   final (snd (submitAll ''u0'' [(101, False, Num 0, Some ''X''), (102, False, Num 7, Some ''Y'')] zeroWorld)) = []"
  using zero_chunk_session_never_merges[of "''empty.bin''" "''u0''" 100 None None emptyWorld
      "[(101, False, Num 0, Some ''X''), (102, False, Num 7, Some ''Y'')]"]
  by (simp add: zeroWorld_def emptyWorld_def)

subsection \<open>Sending a chunk twice\<close>

lemma mergeChunks_fields [simp]:
  "sessions (snd (mergeChunks now e m w)) = sessions w"
  "liveStreams (snd (mergeChunks now e m w)) = liveStreams w"
  "tmp (snd (mergeChunks now e m w)) = tmp w"
  by (simp_all add: mergeChunks_def Let_def split: prod.splits option.splits)

lemma mergeChunks_final:
  "final (snd (mergeChunks now e m w)) =
     AList.update (artifactName now (originalName m))
       \<lparr>content = snd (mergeLoop (totalChunks m) (chunkFiles (uploadId m) w) 0 []), mtime = now\<rparr> (final w)"
  by (simp add: mergeChunks_def Let_def split: prod.splits option.splits)

lemma mergeChunks_result:
  "fst (mergeChunks now e m w) =
     (case fst (mergeLoop (totalChunks m) (chunkFiles (uploadId m) w) 0 []) of
        Some err \<Rightarrow> Inl err
      | None \<Rightarrow> if e then Inl EIO else Inr (artifactName now (originalName m)))"
  by (simp add: mergeChunks_def Let_def split: prod.splits option.splits)

lemma writeChunk_same:
  assumes "tmp w uid = Some d" "chunks d i = Some b"
  shows "writeChunk uid i b w = w"
proof -
  have "(chunks d)(i \<mapsto> b) = chunks d" using assms(2) by (simp add: map_upd_triv)
  then have "(tmp w)(uid \<mapsto> d\<lparr>chunks := (chunks d)(i \<mapsto> b)\<rparr>) = tmp w"
    using assms(1) by (simp add: fun_upd_idem)
  then show ?thesis using assms(1) by (simp add: writeChunk_def mkdirSession_def Let_def)
qed

lemma writeSessionMeta_same:
  assumes "tmp w uid = Some d" "meta d = Some m"
  shows "writeSessionMeta uid m w = w"
proof -
  have "d\<lparr>meta := Some m\<rparr> = d" using assms(2) by simp
  then have "(tmp w)(uid \<mapsto> d\<lparr>meta := Some m\<rparr>) = tmp w"
    using assms(1) by (simp add: fun_upd_idem)
  then show ?thesis using assms(1) by (simp add: writeSessionMeta_def mkdirSession_def Let_def)
qed

lemma sessions_same: "sessions w uid = Some s \<Longrightarrow> w\<lparr>sessions := (sessions w)(uid \<mapsto> s)\<rparr> = w"
  by (simp add: fun_upd_idem)

lemma tmp_after_write:
  "\<exists>d. tmp (writeSessionMeta uid m (writeChunk uid i b w1\<lparr>sessions := x\<rparr>)) uid = Some d \<and>
       chunks d i = Some b \<and> meta d = Some m"
  by (auto simp: writeSessionMeta_def writeChunk_def mkdirSession_def Let_def split: option.splits)

lemma uploadChunk_invalid:
  assumes "\<not> (\<exists>b i. part = Some b \<and> index = Num i \<and> 0 \<le> i)"
  shows "uploadChunk now e uid index part w =
           (BadRequest (if part = None then ''chunk file is required''
                        else ''valid chunk index is required''), w)"
  using assms by (auto simp: uploadChunk_def split: option.splits jsnum.splits)

lemma uploadChunk_unknown:
  assumes "lookupSession uid w = None" "0 \<le> i"
  shows "uploadChunk now e uid (Num i) (Some b) w = (NotFound ''upload session not found'', w)"
  using assms by (simp add: uploadChunk_def)

lemma uploadChunk_merging:
  assumes look: "lookupSession uid w = Some (s, w1)"
    and i0: "0 \<le> i"
    and rc': "rc' = recordChunk i (receivedChunks s)"
    and eq: "js_nat (length rc') = totalChunks s"
    and m: "m = mergeChunks now e (s\<lparr>receivedChunks := rc'\<rparr>)
                  ((writeChunk uid i b w1)\<lparr>sessions := (sessions w1)(uid \<mapsto> s\<lparr>receivedChunks := rc'\<rparr>)\<rparr>)"
  shows "uploadChunk now e uid (Num i) (Some b) w =
           (case fst m of
              Inl err \<Rightarrow> (Rejected err, snd m)
            | Inr fname \<Rightarrow>
                (ChunkAccepted uid i (length rc') (totalChunks s) True (Some fname),
                 (snd m)\<lparr>tmp := (tmp (snd m))(uid := None),
                         sessions := (sessions (snd m))(uid := None)\<rparr>))"
  using assms by (simp add: uploadChunk_def Let_def split: prod.splits sum.splits)

lemma tmp_after_writeChunk:
  "\<exists>d. tmp (writeChunk uid i b w) uid = Some d \<and> chunks d i = Some b"
  by (auto simp: writeChunk_def mkdirSession_def Let_def split: option.splits)

lemma resubmit_same_world:
  assumes first: "uploadChunk t1 e1 uid index part w = (r1, w1)"
    and ok: "\<forall>err. r1 \<noteq> Rejected err"
  shows "snd (uploadChunk t2 e2 uid index part w1) = w1 \<and>
         (\<not> completeFlag r1 \<longrightarrow> fst (uploadChunk t2 e2 uid index part w1) = r1)"
proof (cases "\<exists>b i. part = Some b \<and> index = Num i \<and> 0 \<le> i")
  case False
  from uploadChunk_invalid[OF False] first show ?thesis by simp
next
  case True
  then obtain b i where p: "part = Some b" and ix: "index = Num i" and i0: "0 \<le> i" by blast
  show ?thesis
  proof (cases "lookupSession uid w")
    case None
    from uploadChunk_unknown[OF None i0, of t1 e1 b] first
    have "w1 = w" "r1 = NotFound ''upload session not found''" unfolding p ix by simp_all
    then show ?thesis unfolding p ix using uploadChunk_unknown[OF None i0, of t2 e2 b] by simp
  next
    case (Some sw)
    obtain s w0 where look: "lookupSession uid w = Some (s, w0)" using Some by (cases sw) simp
    let ?rc' = "recordChunk i (receivedChunks s)"
    let ?s' = "s\<lparr>receivedChunks := ?rc'\<rparr>"
    show ?thesis
    proof (cases "js_nat (length ?rc') = totalChunks s")
      case False
      note step = uploadChunk_incomplete[OF look i0 refl False, of t1 e1 b]
      have r1: "r1 = ChunkAccepted uid i (length ?rc') (totalChunks s) False None"
        and w1: "w1 = writeSessionMeta uid ?s'
            ((writeChunk uid i b w0)\<lparr>sessions := (sessions w0)(uid \<mapsto> ?s')\<rparr>)"
        using first unfolding p ix step by simp_all
      have reg: "sessions w1 uid = Some ?s'" unfolding w1 by simp
      have look1: "lookupSession uid w1 = Some (?s', w1)"
        by (rule lookupSession_registered[OF reg])
      obtain d where d: "tmp w1 uid = Some d" "chunks d i = Some b" "meta d = Some ?s'"
        unfolding w1 using tmp_after_write by blast
      have idem: "?s'\<lparr>receivedChunks := recordChunk i (receivedChunks ?s')\<rparr> = ?s'" by simp
      have ne1: "js_nat (length (recordChunk i (receivedChunks ?s'))) \<noteq> totalChunks ?s'"
        using False by simp
      note step2 = uploadChunk_incomplete[OF look1 i0 refl ne1, of t2 e2 b]
      have same: "writeSessionMeta uid ?s' ((writeChunk uid i b w1)\<lparr>sessions := (sessions w1)(uid \<mapsto> ?s')\<rparr>) = w1"
        unfolding writeChunk_same[OF d(1,2)] sessions_same[OF reg]
        by (rule writeSessionMeta_same[OF d(1,3)])
      show ?thesis
        unfolding p ix step2 idem fst_conv snd_conv same r1 by simp
    next
      case True
      let ?w3 = "(writeChunk uid i b w0)\<lparr>sessions := (sessions w0)(uid \<mapsto> ?s')\<rparr>"
      note step = uploadChunk_merging[OF look i0 refl True refl, of t1 e1 b]
      obtain fname where res: "fst (mergeChunks t1 e1 ?s' ?w3) = Inr fname"
        using first ok unfolding p ix step by (cases "fst (mergeChunks t1 e1 ?s' ?w3)") auto
      have r1: "completeFlag r1" and w1: "w1 = (snd (mergeChunks t1 e1 ?s' ?w3))
                 \<lparr>tmp := (tmp (snd (mergeChunks t1 e1 ?s' ?w3)))(uid := None),
                  sessions := (sessions (snd (mergeChunks t1 e1 ?s' ?w3)))(uid := None)\<rparr>"
        using first unfolding p ix step res by auto
      have gone: "lookupSession uid w1 = None"
        unfolding w1 by (simp add: lookupSession_def readSessionMeta_def)
      show ?thesis
        unfolding p ix uploadChunk_unknown[OF gone i0] using r1 by simp
    qed
  qed
qed

lemma uploadChunk_RejectedD:
  assumes rej: "uploadChunk now e uid index part w = (Rejected err, w')"
  obtains b i s w0 where "part = Some b" and "index = Num i" and "0 \<le> i"
    and "lookupSession uid w = Some (s, w0)"
    and "js_nat (length (recordChunk i (receivedChunks s))) = totalChunks s"
    and "fst (mergeChunks now e (s\<lparr>receivedChunks := recordChunk i (receivedChunks s)\<rparr>)
                ((writeChunk uid i b w0)\<lparr>sessions := (sessions w0)(uid \<mapsto>
                    s\<lparr>receivedChunks := recordChunk i (receivedChunks s)\<rparr>)\<rparr>)) = Inl err"
    and "w' = snd (mergeChunks now e (s\<lparr>receivedChunks := recordChunk i (receivedChunks s)\<rparr>)
                ((writeChunk uid i b w0)\<lparr>sessions := (sessions w0)(uid \<mapsto>
                    s\<lparr>receivedChunks := recordChunk i (receivedChunks s)\<rparr>)\<rparr>))"
proof -
  have valid: "\<exists>b i. part = Some b \<and> index = Num i \<and> 0 \<le> i"
  proof (rule ccontr)
    assume "\<not> ?thesis"
    from uploadChunk_invalid[OF this, of now e uid w] rej show False by simp
  qed
  then obtain b i where p: "part = Some b" and ix: "index = Num i" and i0: "0 \<le> i" by blast
  obtain s w0 where look: "lookupSession uid w = Some (s, w0)"
  proof (cases "lookupSession uid w")
    case None
    from uploadChunk_unknown[OF None i0, of now e b] rej show ?thesis unfolding p ix by simp
  next
    case (Some sw)
    then show ?thesis using that by (cases sw) simp
  qed
  let ?rc' = "recordChunk i (receivedChunks s)"
  let ?s' = "s\<lparr>receivedChunks := ?rc'\<rparr>"
  let ?w3 = "(writeChunk uid i b w0)\<lparr>sessions := (sessions w0)(uid \<mapsto> ?s')\<rparr>"
  have eq: "js_nat (length ?rc') = totalChunks s"
  proof (rule ccontr)
    assume "\<not> ?thesis"
    from uploadChunk_incomplete[OF look i0 refl this, of now e b] rej show False
      unfolding p ix by simp
  qed
  note step = uploadChunk_merging[OF look i0 refl eq refl, of now e b]
  have res: "fst (mergeChunks now e ?s' ?w3) = Inl err" and w': "w' = snd (mergeChunks now e ?s' ?w3)"
    using rej unfolding p ix step by (cases "fst (mergeChunks now e ?s' ?w3)"; simp)+
  from that[OF p ix i0 look eq res w'] show ?thesis .
qed

lemma resubmit_after_reject:
  assumes rej: "uploadChunk t1 e1 uid index part w = (Rejected err, w1)"
  shows "sessions (snd (uploadChunk t2 e2 uid index part w1)) uid = sessions w1 uid \<and>
         tmp (snd (uploadChunk t2 e2 uid index part w1)) uid = tmp w1 uid \<or>
         completeFlag (fst (uploadChunk t2 e2 uid index part w1))"
proof -
  from rej obtain b i s w0 where p: "part = Some b" and ix: "index = Num i" and i0: "0 \<le> i"
    and look: "lookupSession uid w = Some (s, w0)"
    and eq: "js_nat (length (recordChunk i (receivedChunks s))) = totalChunks s"
    and w1: "w1 = snd (mergeChunks t1 e1 (s\<lparr>receivedChunks := recordChunk i (receivedChunks s)\<rparr>)
                ((writeChunk uid i b w0)\<lparr>sessions := (sessions w0)(uid \<mapsto>
                    s\<lparr>receivedChunks := recordChunk i (receivedChunks s)\<rparr>)\<rparr>))"
    by (rule uploadChunk_RejectedD)
  let ?rc' = "recordChunk i (receivedChunks s)"
  let ?s' = "s\<lparr>receivedChunks := ?rc'\<rparr>"
  have reg: "sessions w1 uid = Some ?s'" unfolding w1 by simp
  have tmp1: "tmp w1 = tmp (writeChunk uid i b w0)" unfolding w1 by simp
  obtain d where d: "tmp w1 uid = Some d" "chunks d i = Some b"
    unfolding tmp1 using tmp_after_writeChunk by blast
  have look1: "lookupSession uid w1 = Some (?s', w1)" by (rule lookupSession_registered[OF reg])
  have eq1: "js_nat (length (recordChunk i (receivedChunks ?s'))) = totalChunks ?s'"
    using eq by simp
  let ?m2 = "mergeChunks t2 e2 (?s'\<lparr>receivedChunks := recordChunk i (receivedChunks ?s')\<rparr>)
               ((writeChunk uid i b w1)\<lparr>sessions := (sessions w1)(uid \<mapsto>
                   ?s'\<lparr>receivedChunks := recordChunk i (receivedChunks ?s')\<rparr>)\<rparr>)"
  note step2 = uploadChunk_merging[OF look1 i0 refl eq1 refl, of t2 e2 b]
  show ?thesis
  proof (cases "fst ?m2")
    case (Inl err2)
    have "sessions (snd ?m2) uid = sessions w1 uid" using reg by simp
    moreover have "tmp (snd ?m2) uid = tmp w1 uid"
      unfolding writeChunk_same[OF d] by simp
    ultimately show ?thesis unfolding p ix step2 Inl by simp
  next
    case (Inr fname)
    show ?thesis unfolding p ix step2 Inr by simp
  qed
qed



subsection \<open>Received indices and staged chunk files\<close>

lemma receivedStaged_init:
  assumes "fname \<noteq> []"
  shows "receivedStaged uid (snd (uploadInit now uid (Some fname) ts tc mime w))"
proof -
  let ?s = "\<lparr>uploadId = uid, originalName = safeName fname,
             totalSize = (case ts of None \<Rightarrow> Num 0 | Some n \<Rightarrow> n),
             totalChunks = (case tc of None \<Rightarrow> Num 1 | Some n \<Rightarrow> n),
             mimeType = (case mime of None \<Rightarrow> ''application/octet-stream'' | Some t \<Rightarrow> t),
             createdAt = now, receivedChunks = []\<rparr>"
  let ?w = "snd (uploadInit now uid (Some fname) ts tc mime w)"
  have w: "?w = writeSessionMeta uid ?s (w\<lparr>sessions := (sessions w)(uid \<mapsto> ?s)\<rparr>)"
    using assms by (simp add: uploadInit_def Let_def)
  have look: "lookupSession uid ?w = Some (?s, ?w)"
    unfolding w by (rule lookupSession_registered) simp
  show ?thesis unfolding receivedStaged_def look by simp
qed

lemma receivedStaged_registered:
  assumes "sessions w uid = Some s" "uploadId s = uid" "distinct (receivedChunks s)"
    "\<And>j. j \<in> set (receivedChunks s) \<Longrightarrow> chunkFiles uid w j \<noteq> None"
  shows "receivedStaged uid w"
  unfolding receivedStaged_def lookupSession_registered[OF assms(1)] using assms(2-4) by simp

lemma receivedStaged_uploadChunk:
  assumes inv: "receivedStaged uid w"
  shows "receivedStaged uid (snd (uploadChunk now e uid index part w))"
proof (cases "\<exists>b i. part = Some b \<and> index = Num i \<and> 0 \<le> i")
  case False
  from uploadChunk_invalid[OF False] inv show ?thesis by simp
next
  case True
  then obtain b i where p: "part = Some b" and ix: "index = Num i" and i0: "0 \<le> i" by blast
  show ?thesis
  proof (cases "lookupSession uid w")
    case None
    from uploadChunk_unknown[OF None i0] inv show ?thesis unfolding p ix by simp
  next
    case (Some sw)
    obtain s w0 where look: "lookupSession uid w = Some (s, w0)" using Some by (cases sw) simp
    note w0 = lookupSession_SomeD[OF look]
    from inv have own: "uploadId s = uid" and dist: "distinct (receivedChunks s)"
      and staged: "\<And>j. j \<in> set (receivedChunks s) \<Longrightarrow> chunkFiles uid w j \<noteq> None"
      unfolding receivedStaged_def look by auto
    let ?rc' = "recordChunk i (receivedChunks s)"
    let ?s' = "s\<lparr>receivedChunks := ?rc'\<rparr>"
    let ?w3 = "(writeChunk uid i b w0)\<lparr>sessions := (sessions w0)(uid \<mapsto> ?s')\<rparr>"
    have cf3: "chunkFiles uid ?w3 = (chunkFiles uid w)(i \<mapsto> b)"
      using chunkFiles_cong[OF w0(1), of uid] by simp
    have staged': "\<And>j. j \<in> set ?rc' \<Longrightarrow> ((chunkFiles uid w)(i \<mapsto> b)) j \<noteq> None"
      using staged by auto
    show ?thesis
    proof (cases "js_nat (length ?rc') = totalChunks s")
      case False
      note step = uploadChunk_incomplete[OF look i0 refl False, of now e b]
      show ?thesis unfolding p ix step snd_conv
      proof (rule receivedStaged_registered[where s = ?s'])
        show "sessions (writeSessionMeta uid ?s' ?w3) uid = Some ?s'" by simp
        show "uploadId ?s' = uid" using own by simp
        show "distinct (receivedChunks ?s')" using dist by simp
        show "\<And>j. j \<in> set (receivedChunks ?s') \<Longrightarrow> chunkFiles uid (writeSessionMeta uid ?s' ?w3) j \<noteq> None"
          using staged' cf3 by simp
      qed
    next
      case True
      note step = uploadChunk_merging[OF look i0 refl True refl, of now e b]
      show ?thesis
      proof (cases "fst (mergeChunks now e ?s' ?w3)")
        case (Inl err)
        show ?thesis unfolding p ix step Inl sum.case snd_conv
        proof (rule receivedStaged_registered[where s = ?s'])
          show "sessions (snd (mergeChunks now e ?s' ?w3)) uid = Some ?s'" by simp
          show "uploadId ?s' = uid" using own by simp
          show "distinct (receivedChunks ?s')" using dist by simp
          have "chunkFiles uid (snd (mergeChunks now e ?s' ?w3)) = chunkFiles uid ?w3"
            by (rule chunkFiles_cong) simp
          then show "\<And>j. j \<in> set (receivedChunks ?s') \<Longrightarrow>
                      chunkFiles uid (snd (mergeChunks now e ?s' ?w3)) j \<noteq> None"
            using staged' cf3 by simp
        qed
      next
        case (Inr fname)
        show ?thesis unfolding p ix step Inr sum.case snd_conv
          by (simp add: receivedStaged_def lookupSession_def readSessionMeta_def)
      qed
    qed
  qed
qed

lemma receivedStaged_frame:
  assumes "sessions w' uid = sessions w uid" "tmp w' uid = tmp w uid"
  shows "receivedStaged uid w' = receivedStaged uid w"
  using assms
  by (auto simp: receivedStaged_def lookupSession_def readSessionMeta_def chunkFiles_def
           split: option.splits)

lemma tmp_mkdirSession_other [simp]: "u \<noteq> uid \<Longrightarrow> tmp (mkdirSession uid w) u = tmp w u"
  by (simp add: mkdirSession_def split: option.splits)

lemma lookupSession_other:
  assumes "lookupSession uid w = Some (s, w1)" "u \<noteq> uid"
  shows "sessions w1 u = sessions w u"
  using assms by (auto simp: lookupSession_def split: option.splits)

lemma uploadChunk_other:
  assumes u: "u \<noteq> uid"
  shows "sessions (snd (uploadChunk now e uid index part w)) u = sessions w u \<and>
         tmp (snd (uploadChunk now e uid index part w)) u = tmp w u"
proof (cases "\<exists>b i. part = Some b \<and> index = Num i \<and> 0 \<le> i")
  case False
  from uploadChunk_invalid[OF False] show ?thesis by simp
next
  case True
  then obtain b i where p: "part = Some b" and ix: "index = Num i" and i0: "0 \<le> i" by blast
  show ?thesis
  proof (cases "lookupSession uid w")
    case None
    from uploadChunk_unknown[OF None i0] show ?thesis unfolding p ix by simp
  next
    case (Some sw)
    obtain s w0 where look: "lookupSession uid w = Some (s, w0)" using Some by (cases sw) simp
    note w0 = lookupSession_SomeD[OF look] lookupSession_other[OF look u]
    let ?rc' = "recordChunk i (receivedChunks s)"
    let ?s' = "s\<lparr>receivedChunks := ?rc'\<rparr>"
    let ?w3 = "(writeChunk uid i b w0)\<lparr>sessions := (sessions w0)(uid \<mapsto> ?s')\<rparr>"
    show ?thesis
    proof (cases "js_nat (length ?rc') = totalChunks s")
      case False
      note step = uploadChunk_incomplete[OF look i0 refl False, of now e b]
      show ?thesis unfolding p ix step snd_conv using u w0 by simp
    next
      case True
      note step = uploadChunk_merging[OF look i0 refl True refl, of now e b]
      show ?thesis unfolding p ix step using u w0
        by (cases "fst (mergeChunks now e ?s' ?w3)") simp_all
    qed
  qed
qed

lemma receivedStaged_route:
  assumes "receivedStaged uid w"
  shows "receivedStaged uid (snd (route r w))"
proof (cases r)
  case (UploadInit now u filename tSize tChunks mime)
  show ?thesis
  proof (cases "u = uid \<and> filename \<noteq> None \<and> filename \<noteq> Some []")
    case True
    then obtain fname where f: "filename = Some fname" "fname \<noteq> []" "u = uid" by auto
    show ?thesis unfolding UploadInit route.simps f by (rule receivedStaged_init[OF f(2)])
  next
    case False
    have "sessions (snd (uploadInit now u filename tSize tChunks mime w)) uid = sessions w uid \<and>
          tmp (snd (uploadInit now u filename tSize tChunks mime w)) uid = tmp w uid"
      using False by (auto simp: uploadInit_def Let_def split: option.splits)
    then show ?thesis unfolding UploadInit route.simps
      using receivedStaged_frame assms by blast
  qed
next
  case (UploadStatus u)
  have "lookupSession uid (snd (uploadStatus u w)) = None \<and> lookupSession uid w = None \<or>
        (\<exists>s. fst (the (lookupSession uid (snd (uploadStatus u w)))) = s \<and>
             fst (the (lookupSession uid w)) = s \<and> lookupSession uid w \<noteq> None \<and>
             lookupSession uid (snd (uploadStatus u w)) \<noteq> None)"
    by (auto simp: uploadStatus_def lookupSession_def readSessionMeta_def split: option.splits)
  moreover have "tmp (snd (uploadStatus u w)) = tmp w"
    by (auto simp: uploadStatus_def lookupSession_def split: option.splits)
  ultimately show ?thesis unfolding UploadStatus route.simps
    using assms chunkFiles_cong[of "snd (uploadStatus u w)" w uid]
    by (auto simp: receivedStaged_def split: option.splits)
next
  case (UploadChunk now e u index part)
  show ?thesis
  proof (cases "u = uid")
    case True
    show ?thesis unfolding UploadChunk route.simps True by (rule receivedStaged_uploadChunk[OF assms])
  next
    case False
    then have "uid \<noteq> u" by simp
    from uploadChunk_other[OF this] show ?thesis unfolding UploadChunk route.simps
      using receivedStaged_frame assms by blast
  qed
next
  case (StreamInit now sid filename mime)
  have "sessions (snd (streamInit now sid filename mime w)) uid = sessions w uid"
       "tmp (snd (streamInit now sid filename mime w)) uid = tmp w uid"
    by (simp_all add: streamInit_def Let_def)
  then show ?thesis unfolding StreamInit route.simps using receivedStaged_frame assms by blast
next
  case (StreamChunk now e sid part)
  have "sessions (snd (streamChunk now e sid part w)) uid = sessions w uid"
       "tmp (snd (streamChunk now e sid part w)) uid = tmp w uid"
    by (simp_all add: streamChunk_def Let_def split: option.splits)
  then show ?thesis unfolding StreamChunk route.simps using receivedStaged_frame assms by blast
next
  case (StreamFinish e sid)
  have "sessions (snd (streamFinish e sid w)) uid = sessions w uid"
       "tmp (snd (streamFinish e sid w)) uid = tmp w uid"
    by (simp_all add: streamFinish_def split: option.splits)
  then show ?thesis unfolding StreamFinish route.simps using receivedStaged_frame assms by blast
next
  case ListFiles
  then show ?thesis using assms by (simp add: listFiles_def)
qed

lemma readSessionMeta_writeChunk [simp]:
  "readSessionMeta u (writeChunk uid i b w) = readSessionMeta u w"
  by (auto simp: readSessionMeta_def writeChunk_def mkdirSession_def Let_def split: option.splits)

lemma readSessionMeta_sessions_update [simp]:
  "readSessionMeta u (w\<lparr>sessions := x\<rparr>) = readSessionMeta u w"
  by (simp add: readSessionMeta_def)

lemma readSessionMeta_cong: "tmp w1 u = tmp w u \<Longrightarrow> readSessionMeta u w1 = readSessionMeta u w"
  by (simp add: readSessionMeta_def)

lemma chunkFiles_cong1: "tmp w1 u = tmp w u \<Longrightarrow> chunkFiles u w1 = chunkFiles u w"
  by (simp add: chunkFiles_def)

lemma snapshotStaged_frame:
  assumes "tmp w' uid = tmp w uid"
  shows "snapshotStaged uid w' = snapshotStaged uid w"
proof -
  have a: "readSessionMeta uid w' = readSessionMeta uid w" "chunkFiles uid w' = chunkFiles uid w"
    using assms by (simp_all add: readSessionMeta_def chunkFiles_def)
  show ?thesis unfolding snapshotStaged_def a ..
qed

lemma snapshotCurrent_frame:
  assumes "sessions w' uid = sessions w uid" "tmp w' uid = tmp w uid"
  shows "snapshotCurrent uid w' = snapshotCurrent uid w"
proof -
  have a: "readSessionMeta uid w' = readSessionMeta uid w" "chunkFiles uid w' = chunkFiles uid w"
    using assms by (simp_all add: readSessionMeta_def chunkFiles_def)
  show ?thesis unfolding snapshotCurrent_def a assms(1) ..
qed

lemma route_other:
  assumes "\<forall>now e index part. r \<noteq> UploadChunk now e uid index part"
    and "\<forall>now filename tSize tChunks mime. r \<noteq> UploadInit now uid filename tSize tChunks mime"
    and "r \<noteq> UploadStatus uid"
  shows "sessions (snd (route r w)) uid = sessions w uid \<and> tmp (snd (route r w)) uid = tmp w uid"
proof (cases r)
  case (UploadInit now u filename tSize tChunks mime)
  then have "u \<noteq> uid" using assms(2) by auto
  then show ?thesis unfolding UploadInit route.simps
    by (auto simp: uploadInit_def Let_def split: option.splits)
next
  case (UploadStatus u)
  then have u: "u \<noteq> uid" using assms(3) by auto
  show ?thesis unfolding UploadStatus route.simps using u
    by (auto simp: uploadStatus_def lookupSession_def split: option.splits)
next
  case (UploadChunk now e u index part)
  then have "uid \<noteq> u" using assms(1) by auto
  from uploadChunk_other[OF this] show ?thesis unfolding UploadChunk route.simps .
next
  case (StreamInit now sid filename mime)
  show ?thesis unfolding StreamInit route.simps by (simp add: streamInit_def Let_def)
next
  case (StreamChunk now e sid part)
  show ?thesis unfolding StreamChunk route.simps
    by (simp add: streamChunk_def Let_def split: option.splits)
next
  case (StreamFinish e sid)
  show ?thesis unfolding StreamFinish route.simps by (simp add: streamFinish_def split: option.splits)
next
  case ListFiles
  then show ?thesis by (simp add: listFiles_def)
qed

lemma snapshotStaged_uploadChunk:
  assumes inv: "receivedStaged uid w" and snap: "snapshotStaged uid w"
  shows "snapshotStaged uid (snd (uploadChunk now e uid index part w))"
proof (cases "\<exists>b i. part = Some b \<and> index = Num i \<and> 0 \<le> i")
  case False
  from uploadChunk_invalid[OF False] snap show ?thesis by simp
next
  case True
  then obtain b i where p: "part = Some b" and ix: "index = Num i" and i0: "0 \<le> i" by blast
  show ?thesis
  proof (cases "lookupSession uid w")
    case None
    from uploadChunk_unknown[OF None i0] snap show ?thesis unfolding p ix by simp
  next
    case (Some sw)
    obtain s w0 where look: "lookupSession uid w = Some (s, w0)" using Some by (cases sw) simp
    note w0 = lookupSession_SomeD[OF look]
    from inv have own: "uploadId s = uid" and dist: "distinct (receivedChunks s)"
      and staged: "\<And>j. j \<in> set (receivedChunks s) \<Longrightarrow> chunkFiles uid w j \<noteq> None"
      unfolding receivedStaged_def look by auto
    let ?rc' = "recordChunk i (receivedChunks s)"
    let ?s' = "s\<lparr>receivedChunks := ?rc'\<rparr>"
    let ?w3 = "(writeChunk uid i b w0)\<lparr>sessions := (sessions w0)(uid \<mapsto> ?s')\<rparr>"
    have cf3: "chunkFiles uid ?w3 = (chunkFiles uid w)(i \<mapsto> b)"
      using chunkFiles_cong[OF w0(1), of uid] by simp
    have meta3: "readSessionMeta uid ?w3 = readSessionMeta uid w"
      using readSessionMeta_cong[of w0 uid w] w0(1) by simp
    have snap3: "snapshotStaged uid ?w3"
    proof -
      have "\<And>m j. readSessionMeta uid w = Some m \<Longrightarrow> j \<in> set (receivedChunks m) \<Longrightarrow>
              ((chunkFiles uid w)(i \<mapsto> b)) j \<noteq> None"
        using snap unfolding snapshotStaged_def by (auto split: option.splits)
      then show ?thesis using snap unfolding snapshotStaged_def meta3 cf3
        by (auto split: option.splits)
    qed
    show ?thesis
    proof (cases "js_nat (length ?rc') = totalChunks s")
      case False
      note step = uploadChunk_incomplete[OF look i0 refl False, of now e b]
      have "readSessionMeta uid (writeSessionMeta uid ?s' ?w3) = Some ?s'" by simp
      moreover have "chunkFiles uid (writeSessionMeta uid ?s' ?w3) = (chunkFiles uid w)(i \<mapsto> b)"
        using cf3 by simp
      ultimately show ?thesis unfolding p ix step snd_conv snapshotStaged_def
        using own dist staged by auto
    next
      case True
      note step = uploadChunk_merging[OF look i0 refl True refl, of now e b]
      show ?thesis
      proof (cases "fst (mergeChunks now e ?s' ?w3)")
        case (Inl err)
        have "tmp (snd (mergeChunks now e ?s' ?w3)) uid = tmp ?w3 uid" by simp
        from snapshotStaged_frame[OF this] snap3
        show ?thesis unfolding p ix step Inl sum.case snd_conv by simp
      next
        case (Inr fname)
        show ?thesis unfolding p ix step Inr sum.case snd_conv
          by (simp add: snapshotStaged_def readSessionMeta_def)
      qed
    qed
  qed
qed

lemma snapshotStaged_route:
  assumes inv: "receivedStaged uid w" and snap: "snapshotStaged uid w"
  shows "snapshotStaged uid (snd (route r w))"
proof (cases "\<exists>now e index part. r = UploadChunk now e uid index part")
  case True
  then obtain now e index part where r: "r = UploadChunk now e uid index part" by blast
  show ?thesis unfolding r route.simps by (rule snapshotStaged_uploadChunk[OF inv snap])
next
  case nochunk: False
  show ?thesis
  proof (cases "\<exists>now filename tSize tChunks mime. r = UploadInit now uid filename tSize tChunks mime")
    case True
    then obtain now filename tSize tChunks mime
      where r: "r = UploadInit now uid filename tSize tChunks mime" by blast
    show ?thesis
    proof (cases "filename \<noteq> None \<and> filename \<noteq> Some []")
      case True
      then obtain fname where f: "filename = Some fname" "fname \<noteq> []" by auto
      show ?thesis unfolding r route.simps f using f(2)
        by (simp add: uploadInit_def Let_def snapshotStaged_def)
    next
      case False
      then have "snd (uploadInit now uid filename tSize tChunks mime w) = w"
        by (auto simp: uploadInit_def split: option.splits)
      then show ?thesis unfolding r route.simps using snap by simp
    qed
  next
    case noinit: False
    have "tmp (snd (route r w)) uid = tmp w uid"
    proof (cases "r = UploadStatus uid")
      case True
      show ?thesis unfolding True route.simps
        by (auto simp: uploadStatus_def lookupSession_def split: option.splits)
    next
      case False
      from route_other[of r uid w] nochunk noinit False show ?thesis by blast
    qed
    from snapshotStaged_frame[OF this] snap show ?thesis by simp
  qed
qed

lemma lookupSession_meta:
  assumes look: "lookupSession uid w = Some (s, w0)" and cur: "snapshotCurrent uid w"
  shows "readSessionMeta uid w \<noteq> None"
proof (cases "sessions w uid")
  case None
  then show ?thesis using look by (auto simp: lookupSession_def split: option.splits)
next
  case (Some s1)
  then show ?thesis using cur unfolding snapshotCurrent_def by auto
qed

lemma snapshotCurrent_uploadChunk:
  assumes inv: "receivedStaged uid w" and cur: "snapshotCurrent uid w"
    and alive: "\<not> processEnds (fst (uploadChunk now e uid index part w))"
  shows "snapshotCurrent uid (snd (uploadChunk now e uid index part w))"
proof (cases "\<exists>b i. part = Some b \<and> index = Num i \<and> 0 \<le> i")
  case False
  from uploadChunk_invalid[OF False] cur show ?thesis by simp
next
  case True
  then obtain b i where p: "part = Some b" and ix: "index = Num i" and i0: "0 \<le> i" by blast
  show ?thesis
  proof (cases "lookupSession uid w")
    case None
    from uploadChunk_unknown[OF None i0] cur show ?thesis unfolding p ix by simp
  next
    case (Some sw)
    obtain s w0 where look: "lookupSession uid w = Some (s, w0)" using Some by (cases sw) simp
    note w0 = lookupSession_SomeD[OF look]
    from inv have own: "uploadId s = uid"
      unfolding receivedStaged_def look by auto
    let ?rc' = "recordChunk i (receivedChunks s)"
    let ?s' = "s\<lparr>receivedChunks := ?rc'\<rparr>"
    let ?w3 = "(writeChunk uid i b w0)\<lparr>sessions := (sessions w0)(uid \<mapsto> ?s')\<rparr>"
    have meta3: "readSessionMeta uid ?w3 = readSessionMeta uid w"
      using readSessionMeta_cong[of w0 uid w] w0(1) by simp
    show ?thesis
    proof (cases "js_nat (length ?rc') = totalChunks s")
      case False
      note step = uploadChunk_incomplete[OF look i0 refl False, of now e b]
      show ?thesis unfolding p ix step snd_conv snapshotCurrent_def by simp
    next
      case True
      note step = uploadChunk_merging[OF look i0 refl True refl, of now e b]
      show ?thesis
      proof (cases "fst (mergeChunks now e ?s' ?w3)")
        case (Inl err)
        let ?w' = "snd (mergeChunks now e ?s' ?w3)"
        have "err \<noteq> EIO" using alive unfolding p ix step Inl by auto
        then have loop: "fst (mergeLoop (totalChunks ?s') (chunkFiles (uploadId ?s') ?w3) 0 []) \<noteq> None"
          using Inl unfolding mergeChunks_result by (auto split: option.splits if_splits)
        have reg: "sessions ?w' uid = Some ?s'" by simp
        have tmp': "tmp ?w' uid = tmp ?w3 uid" by simp
        have m: "readSessionMeta uid ?w' \<noteq> None"
          using readSessionMeta_cong[OF tmp'] meta3 lookupSession_meta[OF look cur] by simp
        have cf: "chunkFiles uid ?w' = chunkFiles uid ?w3"
          by (rule chunkFiles_cong1[OF tmp'])
        have "readSessionMeta uid ?w' \<noteq> None \<and>
              js_nat (length (receivedChunks ?s')) = totalChunks ?s' \<and>
              fst (mergeLoop (totalChunks ?s') (chunkFiles uid ?w') 0 []) \<noteq> None"
          using m True loop own unfolding cf by simp
        then show ?thesis unfolding p ix step Inl sum.case snd_conv snapshotCurrent_def reg
          by simp
      next
        case (Inr fname)
        show ?thesis unfolding p ix step Inr sum.case snd_conv
          by (simp add: snapshotCurrent_def)
      qed
    qed
  qed
qed

lemma snapshotCurrent_route:
  assumes inv: "receivedStaged uid w" and cur: "snapshotCurrent uid w"
    and alive: "\<not> processEnds (fst (route r w))"
  shows "snapshotCurrent uid (snd (route r w))"
proof (cases "\<exists>now e index part. r = UploadChunk now e uid index part")
  case True
  then obtain now e index part where r: "r = UploadChunk now e uid index part" by blast
  show ?thesis unfolding r route.simps
    by (rule snapshotCurrent_uploadChunk[OF inv cur]) (use alive r in simp)
next
  case nochunk: False
  show ?thesis
  proof (cases "\<exists>now filename tSize tChunks mime. r = UploadInit now uid filename tSize tChunks mime")
    case True
    then obtain now filename tSize tChunks mime
      where r: "r = UploadInit now uid filename tSize tChunks mime" by blast
    show ?thesis
    proof (cases "filename \<noteq> None \<and> filename \<noteq> Some []")
      case True
      then obtain fname where f: "filename = Some fname" "fname \<noteq> []" by auto
      show ?thesis unfolding r route.simps f using f(2)
        by (simp add: uploadInit_def Let_def snapshotCurrent_def)
    next
      case False
      then have "snd (uploadInit now uid filename tSize tChunks mime w) = w"
        by (auto simp: uploadInit_def split: option.splits)
      then show ?thesis unfolding r route.simps using cur by simp
    qed
  next
    case noinit: False
    show ?thesis
    proof (cases "r = UploadStatus uid")
      case True
      show ?thesis
      proof (cases "sessions w uid")
        case None
        then show ?thesis unfolding True route.simps
          by (auto simp: uploadStatus_def lookupSession_def snapshotCurrent_def readSessionMeta_def
                   split: option.splits)
      next
        case (Some s)
        then have "snd (uploadStatus uid w) = w"
          by (simp add: uploadStatus_def lookupSession_def)
        then show ?thesis unfolding True route.simps using cur by simp
      qed
    next
      case False
      from route_other[of r uid w] nochunk noinit False
      have "sessions (snd (route r w)) uid = sessions w uid" "tmp (snd (route r w)) uid = tmp w uid"
        by blast+
      from snapshotCurrent_frame[OF this] cur show ?thesis by simp
    qed
  qed
qed

lemma sessionSound_restart:
  assumes "snapshotStaged uid w"
  shows "sessionSound uid (restart w)"
proof -
  have m: "readSessionMeta uid (restart w) = readSessionMeta uid w"
    by (simp add: readSessionMeta_def)
  have c: "chunkFiles uid (restart w) = chunkFiles uid w"
    by (simp add: chunkFiles_def)
  have a: "snapshotStaged uid (restart w)"
    using assms unfolding snapshotStaged_def m c .
  have b: "snapshotCurrent uid (restart w)" by (simp add: snapshotCurrent_def)
  have d: "receivedStaged uid (restart w)"
    using assms unfolding snapshotStaged_def receivedStaged_def lookupSession_def m c
    by (auto split: option.splits)
  show ?thesis unfolding sessionSound_def using a b d by simp
qed

lemma sessionSound_handle:
  assumes "sessionSound uid w"
  shows "sessionSound uid (snd (handle r w))"
proof -
  from assms have inv: "receivedStaged uid w" and snap: "snapshotStaged uid w"
    and cur: "snapshotCurrent uid w" unfolding sessionSound_def by simp_all
  show ?thesis
  proof (cases "processEnds (fst (route r w))")
    case True
    have "sessionSound uid (restart (snd (route r w)))"
      by (rule sessionSound_restart) (rule snapshotStaged_route[OF inv snap])
    then show ?thesis using True by (simp add: handle_snd)
  next
    case False
    have "sessionSound uid (snd (route r w))"
      unfolding sessionSound_def
      using receivedStaged_route[OF inv] snapshotStaged_route[OF inv snap]
        snapshotCurrent_route[OF inv cur False] by simp
    then show ?thesis using False by (simp add: handle_snd)
  qed
qed

lemma run_sessionSound:
  "sessionSound uid w \<Longrightarrow> sessionSound uid (snd (run rs w))"
proof (induction rs arbitrary: w)
  case Nil
  then show ?case by simp
next
  case (Cons r rs)
  from Cons.prems have "sessionSound uid (snd (handle r w))" by (rule sessionSound_handle)
  then have "sessionSound uid (snd (run rs (snd (handle r w))))" by (rule Cons.IH)
  then show ?case unfolding run_Cons by simp
qed

lemma sessionSound_start: "sessionSound uid emptyWorld"
  by (simp add: sessionSound_def receivedStaged_def snapshotStaged_def snapshotCurrent_def
        lookupSession_def readSessionMeta_def emptyWorld_def)

lemma reachable_sound:
  "w = snd (run rs emptyWorld) \<Longrightarrow> sessionSound uid w"
  using run_sessionSound[OF sessionSound_start] by simp

lemma run_receivedStaged_start:
  "w = snd (run rs emptyWorld) \<Longrightarrow> receivedStaged uid w"
  using reachable_sound[of w rs uid] by (simp add: sessionSound_def)




subsection \<open>Artifact names\<close>

lemma digit_char_inj:
  assumes "a < 10" "b < 10" "digit_char a = digit_char b"
  shows "a = b"
proof -
  have "distinct ''0123456789''" by simp
  moreover have "a < length ''0123456789''" "b < length ''0123456789''" using assms by simp_all
  ultimately show ?thesis using assms(3) unfolding digit_char_def
    by (simp only: nth_eq_iff_index_eq)
qed

lemma digit_char_digit: "d < 10 \<Longrightarrow> digit_char d \<in> set ''0123456789''"
  unfolding digit_char_def by (rule nth_mem) simp

lemma show_nat_nonempty: "show_nat n \<noteq> []"
  by (subst show_nat.simps) simp

lemma show_nat_digits: "c \<in> set (show_nat n) \<Longrightarrow> c \<in> set ''0123456789''"
proof (induction n rule: show_nat.induct)
  case (1 n)
  show ?case
  proof (cases "n < 10")
    case True
    then show ?thesis using "1.prems" digit_char_digit[of n] by (subst (asm) show_nat.simps) simp
  next
    case False
    then have "c \<in> set (show_nat (n div 10)) \<or> c = digit_char (n mod 10)"
      using "1.prems" by (subst (asm) show_nat.simps) auto
    then show ?thesis using "1.IH"[OF False] digit_char_digit[of "n mod 10"] by auto
  qed
qed

lemma show_nat_inj: "show_nat n = show_nat m \<Longrightarrow> n = m"
proof (induction n arbitrary: m rule: show_nat.induct)
  case (1 n)
  show ?case
  proof (cases "n < 10")
    case True
    then have n: "show_nat n = [digit_char n]" by (subst show_nat.simps) simp
    show ?thesis
    proof (cases "m < 10")
      case mt: True
      then have "show_nat m = [digit_char m]" by (subst show_nat.simps) simp
      then show ?thesis using n "1.prems" True mt digit_char_inj by simp
    next
      case False
      then have "show_nat m = show_nat (m div 10) @ [digit_char (m mod 10)]"
        by (subst show_nat.simps) simp
      then show ?thesis using n "1.prems" show_nat_nonempty[of "m div 10"] by simp
    qed
  next
    case False
    then have n: "show_nat n = show_nat (n div 10) @ [digit_char (n mod 10)]"
      by (subst show_nat.simps) simp
    show ?thesis
    proof (cases "m < 10")
      case True
      then have "show_nat m = [digit_char m]" by (subst show_nat.simps) simp
      then show ?thesis using n "1.prems" show_nat_nonempty[of "n div 10"] by simp
    next
      case mf: False
      then have "show_nat m = show_nat (m div 10) @ [digit_char (m mod 10)]"
        by (subst show_nat.simps) simp
      then have eq: "show_nat (n div 10) = show_nat (m div 10)"
        and d: "digit_char (n mod 10) = digit_char (m mod 10)"
        using n "1.prems" by simp_all
      have "n div 10 = m div 10" by (rule "1.IH"[OF False eq])
      moreover have "n mod 10 = m mod 10" by (rule digit_char_inj[OF _ _ d]) simp_all
      ultimately show ?thesis by (metis div_mult_mod_eq)
    qed
  qed
qed

lemma takeWhile_artifactName:
  "takeWhile (\<lambda>c. c \<noteq> CHR ''-'') (artifactName t n) = show_nat t"
proof -
  have "\<forall>c \<in> set (show_nat t). c \<noteq> CHR ''-''"
    using show_nat_digits[of _ t] by auto
  then show ?thesis unfolding artifactName_def by (simp add: takeWhile_append2)
qed

lemma artifactName_eq_iff:
  "artifactName t1 n1 = artifactName t2 n2 \<longleftrightarrow> t1 = t2 \<and> safeName n1 = safeName n2"
proof
  assume eq: "artifactName t1 n1 = artifactName t2 n2"
  then have "show_nat t1 = show_nat t2"
    using takeWhile_artifactName[of t1 n1] takeWhile_artifactName[of t2 n2] by simp
  then have "t1 = t2" by (rule show_nat_inj)
  then show "t1 = t2 \<and> safeName n1 = safeName n2" using eq by (simp add: artifactName_def)
next
  assume "t1 = t2 \<and> safeName n1 = safeName n2"
  then show "artifactName t1 n1 = artifactName t2 n2" by (simp add: artifactName_def)
qed

lemma safeName_idem: "safeName (safeName n) = safeName n"
proof -
  have "safe_char CHR ''_''" by (simp add: safe_char_def)
  then have "map (\<lambda>c. if safe_char c then c else CHR ''_'') (map (\<lambda>c. if safe_char c then c else CHR ''_'') xs)
        = map (\<lambda>c. if safe_char c then c else CHR ''_'') xs" for xs
    by (induction xs) auto
  then show ?thesis by (simp add: safeName_def)
qed

lemma openAppend_other:
  "n \<noteq> fname \<Longrightarrow> map_of (openAppend fname now fs) n = map_of fs n"
  by (simp add: openAppend_def update_conv' split: option.splits)

text \<open>
  Claim C7, amended: every artifact is named \<open><Date.now()>-<safeName(name)>\<close>, by the
  merge and by the live init alike (sanitizing a sanitized name changes nothing). Two
  names are equal exactly when the millisecond timestamps are equal and the sanitized
  names are equal. So two finalizations of the same file name at different
  milliseconds get different names, and the later one (merge or live init) leaves the
  file of the earlier one as it is.
\<close>

theorem artifact_names_by_millisecond:
  "(artifactName t1 n1 = artifactName t2 n2 \<longleftrightarrow> t1 = t2 \<and> safeName n1 = safeName n2) \<and>
   (fst (mergeChunks now endErr m w) = Inr fname \<longrightarrow>
      fname = show_nat now @ ''-'' @ safeName (originalName m)) \<and>
   fst (streamInit now sid fn mime w) =
      StreamCreated sid (show_nat now @ ''-'' @ safeName (case fn of None \<Rightarrow> ''live.webm'' | Some f \<Rightarrow> f)) \<and>
   artifactName now (safeName n) = artifactName now n \<and>
   (t1 \<noteq> t2 \<longrightarrow>
      artifactName t1 n \<noteq> artifactName t2 n \<and>
      map_of (final (snd (mergeChunks t2 endErr (m\<lparr>originalName := n\<rparr>) w))) (artifactName t1 n)
        = map_of (final w) (artifactName t1 n) \<and>
      map_of (final (snd (streamInit t2 sid (Some n) mime w))) (artifactName t1 n)
        = map_of (final w) (artifactName t1 n))"
proof -
  have a: "artifactName t1 n1 = artifactName t2 n2 \<longleftrightarrow> t1 = t2 \<and> safeName n1 = safeName n2"
    by (rule artifactName_eq_iff)
  have b: "fst (mergeChunks now endErr m w) = Inr fname \<longrightarrow>
      fname = show_nat now @ ''-'' @ safeName (originalName m)"
    unfolding mergeChunks_result by (auto simp: artifactName_def split: option.splits if_splits)
  have c: "fst (streamInit now sid fn mime w) =
      StreamCreated sid (show_nat now @ ''-'' @ safeName (case fn of None \<Rightarrow> ''live.webm'' | Some f \<Rightarrow> f))"
    by (simp add: streamInit_def Let_def artifactName_def)
  have d: "artifactName now (safeName n) = artifactName now n"
    by (simp add: artifactName_def safeName_idem)
  have e: "t1 \<noteq> t2 \<longrightarrow>
      artifactName t1 n \<noteq> artifactName t2 n \<and>
      map_of (final (snd (mergeChunks t2 endErr (m\<lparr>originalName := n\<rparr>) w))) (artifactName t1 n)
        = map_of (final w) (artifactName t1 n) \<and>
      map_of (final (snd (streamInit t2 sid (Some n) mime w))) (artifactName t1 n)
        = map_of (final w) (artifactName t1 n)"
  proof
    assume ne: "t1 \<noteq> t2"
    then have n1: "artifactName t1 n \<noteq> artifactName t2 n" by (simp add: artifactName_eq_iff)
    have n2: "map_of (final (snd (mergeChunks t2 endErr (m\<lparr>originalName := n\<rparr>) w))) (artifactName t1 n)
        = map_of (final w) (artifactName t1 n)"
      unfolding mergeChunks_final using n1 by (simp add: update_conv')
    have n3: "map_of (final (snd (streamInit t2 sid (Some n) mime w))) (artifactName t1 n)
        = map_of (final w) (artifactName t1 n)"
      using n1 by (simp add: streamInit_def Let_def openAppend_other)
    from n1 n2 n3 show "artifactName t1 n \<noteq> artifactName t2 n \<and>
      map_of (final (snd (mergeChunks t2 endErr (m\<lparr>originalName := n\<rparr>) w))) (artifactName t1 n)
        = map_of (final w) (artifactName t1 n) \<and>
      map_of (final (snd (streamInit t2 sid (Some n) mime w))) (artifactName t1 n)
        = map_of (final w) (artifactName t1 n)"
      by (intro conjI)
  qed
  show ?thesis by (rule conjI[OF a conjI[OF b conjI[OF c conjI[OF d e]]]])
qed

lemma single_chunk_upload:
  assumes look: "lookupSession uid w = Some (s, w1)"
    and own: "uploadId s = uid" and fresh: "receivedChunks s = []" and total: "totalChunks s = js_nat 1"
  shows "uploadChunk now False uid (Num 0) (Some b) w =
           (ChunkAccepted uid 0 1 (js_nat 1) True (Some (artifactName now (originalName s))),
            w\<lparr>sessions := (sessions w)(uid := None),
              tmp := (tmp w)(uid := None),
              final := AList.update (artifactName now (originalName s))
                         \<lparr>content = b, mtime = now\<rparr> (final w)\<rparr>)"
proof -
  note w1 = lookupSession_SomeD[OF look]
  have rc: "recordChunk 0 (receivedChunks s) = [0]" by (simp add: fresh recordChunk_def)
  have eq: "js_nat (length (recordChunk 0 (receivedChunks s))) = totalChunks s"
    unfolding rc total by simp
  have "mergeLoop (js_nat 1) ((chunkFiles uid w1)(0 \<mapsto> b)) 0 [] = (None, [] @ concat (map (\<lambda>_. b) [0..<1]))"
    by (rule mergeLoop_all_present) simp_all
  then have ml: "mergeLoop (totalChunks s) (chunkFiles (uploadId s) (writeChunk uid 0 b w1)) 0 [] = (None, b)"
    unfolding total own by simp
  have tmpeq: "(tmp (writeChunk uid 0 b w1))(uid := None) = (tmp w)(uid := None)"
    using w1(1) by (auto simp: fun_eq_iff)
  have weq: "(writeChunk uid 0 b w1)
              \<lparr>sessions := (sessions w1)(uid := None),
               tmp := (tmp (writeChunk uid 0 b w1))(uid := None),
               final := AList.update (artifactName now (originalName s))
                          \<lparr>content = b, mtime = now\<rparr> (final w)\<rparr>
            = w\<lparr>sessions := (sessions w)(uid := None),
              tmp := (tmp w)(uid := None),
              final := AList.update (artifactName now (originalName s))
                         \<lparr>content = b, mtime = now\<rparr> (final w)\<rparr>"
    unfolding tmpeq using w1 by (intro world.equality) simp_all
  show ?thesis
    using uploadChunk_complete[OF look _ refl eq ml, of now] unfolding weq rc total by simp
qed

lemma show7: "show_nat 7 = ''7''"
  by (simp add: show_nat.simps digit_char_def)

lemma name7a: "artifactName 7 ''a'' = ''7-a''"
  by (simp add: artifactName_def show7 safeName_a)

lemma final_oneWorld: "final oneWorld = []"
  by (simp add: oneWorld_def uploadInit_def Let_def emptyWorld_def)

lemma twin1:
  "uploadChunk 7 False ''u1'' (Num 0) (Some ''X'') oneWorld =
     (ChunkAccepted ''u1'' 0 1 (js_nat 1) True (Some ''7-a''), twinWorld1)"
  "final twinWorld1 = [(''7-a'', \<lparr>content = ''X'', mtime = 7\<rparr>)]"
proof -
  note step = single_chunk_upload[OF one_lookup, of 7 "''X''"]
  have s: "uploadChunk 7 False ''u1'' (Num 0) (Some ''X'') oneWorld =
     (ChunkAccepted ''u1'' 0 1 (js_nat 1) True (Some ''7-a''),
      oneWorld\<lparr>sessions := (sessions oneWorld)(''u1'' := None),
              tmp := (tmp oneWorld)(''u1'' := None),
              final := AList.update ''7-a'' \<lparr>content = ''X'', mtime = 7\<rparr> (final oneWorld)\<rparr>)"
    using step by (simp add: oneSession_def name7a)
  show "uploadChunk 7 False ''u1'' (Num 0) (Some ''X'') oneWorld =
     (ChunkAccepted ''u1'' 0 1 (js_nat 1) True (Some ''7-a''), twinWorld1)"
    unfolding twinWorld1_def s by simp
  show "final twinWorld1 = [(''7-a'', \<lparr>content = ''X'', mtime = 7\<rparr>)]"
    unfolding twinWorld1_def s by (simp add: final_oneWorld)
qed

lemma twin2:
  "lookupSession ''u2'' twinWorld2 = Some (oneSession\<lparr>uploadId := ''u2'', createdAt := 7\<rparr>, twinWorld2)"
  "final twinWorld2 = [(''7-a'', \<lparr>content = ''X'', mtime = 7\<rparr>)]"
  by (simp_all add: twinWorld2_def uploadInit_def Let_def lookupSession_def oneSession_def safeName_a
        twin1(2) js_nat_def)

text \<open>
  Claim C7, as stated, fails: the disambiguator is the millisecond clock, which two
  finalizations can share. Two uploads of the file name \<open>a\<close>, both merged at
  millisecond 7, are both reported as \<open>7-a\<close>, and the output area ends with the single
  file \<open>7-a\<close> holding the bytes of the second upload.
\<close>

theorem same_millisecond_same_name:
  "fst (uploadChunk 7 False ''u1'' (Num 0) (Some ''X'') oneWorld)
     = ChunkAccepted ''u1'' 0 1 (js_nat 1) True (Some ''7-a'') \<and>
   final twinWorld1 = [(''7-a'', \<lparr>content = ''X'', mtime = 7\<rparr>)] \<and>
   fst (uploadChunk 7 False ''u2'' (Num 0) (Some ''Y'') twinWorld2)
     = ChunkAccepted ''u2'' 0 1 (js_nat 1) True (Some ''7-a'') \<and>
   final (snd (uploadChunk 7 False ''u2'' (Num 0) (Some ''Y'') twinWorld2))
     = [(''7-a'', \<lparr>content = ''Y'', mtime = 7\<rparr>)]"
  using single_chunk_upload[OF twin2(1), of 7 "''Y''"]
  by (simp add: twin1 twin2(2) oneSession_def name7a)

text \<open>Claim C7, amended, for the name \<open>a\<close> at the milliseconds 7 and 8.\<close>

theorem artifact_names_by_millisecond_witness:
  "(7::nat) \<noteq> 8 \<and>
   fst (mergeChunks 8 False oneSession (writeChunk ''u1'' 0 ''X'' oneWorld)) = Inr ''8-a'' \<and>
   artifactName 7 ''a'' \<noteq> artifactName 8 ''a'' \<and>
   map_of (final (snd (mergeChunks 8 False oneSession twinWorld1))) ''7-a''
     = Some \<lparr>content = ''X'', mtime = 7\<rparr>"
proof -
  have show8: "show_nat 8 = ''8''" by (simp add: show_nat.simps digit_char_def)
  have r: "fst (mergeChunks 8 False oneSession (writeChunk ''u1'' 0 ''X'' oneWorld)) = Inr ''8-a''"
    by (simp add: mergeChunks_result oneSession_def mergeLoop.simps js_nat_def artifactName_def
          show8 safeName_a)
  have m: "oneSession\<lparr>originalName := ''a''\<rparr> = oneSession" by (simp add: oneSession_def)
  show ?thesis
    using artifact_names_by_millisecond[where ?t1.0 = 7 and ?t2.0 = 8 and ?n1.0 = "''a''"
        and ?n2.0 = "''a''" and now = 8 and endErr = False and m = oneSession
        and w = "writeChunk ''u1'' 0 ''X'' oneWorld" and fname = "''8-a''" and n = "''a''"]
      artifact_names_by_millisecond[where ?t1.0 = 7 and ?t2.0 = 8 and endErr = False
        and m = oneSession and w = twinWorld1 and n = "''a''"]
      r
    by (simp add: m name7a twin1(2))
qed

subsection \<open>Completion happens once\<close>

lemma uploadChunk_phases:
  "uploadChunk now endErr uid index file w =
     (case chunkBegin uid index file w of
        (Inl r, w1) \<Rightarrow> (r, w1)
      | (Inr (s, i), w3) \<Rightarrow>
          (case mergeChunks now endErr s w3 of
             (Inl e, w4) \<Rightarrow> (Rejected e, w4)
           | (Inr fname, w4) \<Rightarrow> chunkEnd uid i s fname w4))"
  by (simp add: uploadChunk_def chunkBegin_def chunkEnd_def Let_def
           split: option.splits jsnum.splits prod.splits sum.splits)

lemma reachesMerge_iff:
  "reachesMerge uid index file w \<longleftrightarrow>
     (\<exists>b i s w1. file = Some b \<and> index = Num i \<and> 0 \<le> i \<and> lookupSession uid w = Some (s, w1) \<and>
        js_nat (length (recordChunk i (receivedChunks s))) = totalChunks s)"
  by (auto simp: reachesMerge_def chunkBegin_def Let_def split: option.splits jsnum.splits prod.splits)

lemma reachesMerge_mergeRan:
  "reachesMerge uid index file w = mergeRan (fst (uploadChunk now e uid index file w))"
  unfolding reachesMerge_iff uploadChunk_mergeRan_iff ..

lemma mergeCount_filter:
  "mergeCount uid reqs w = length (filter mergeRan (fst (submitAll uid reqs w)))"
proof (induction reqs arbitrary: w)
  case Nil
  then show ?case by simp
next
  case (Cons q rest)
  obtain now e index part where q: "q = (now, e, index, part)" by (cases q)
  show ?case
    unfolding q mergeCount.simps submitAll_Cons Cons.IH fst_conv
    by (simp add: reachesMerge_mergeRan[of uid index part w now e])
qed

lemma run_chunks_prefix:
  assumes "lookupSession uid w = Some (s, w1)" and "totalChunks s = js_nat N"
    and "distinct (map (\<lambda>c. fst (snd c)) subs)"
    and "\<And>c. c \<in> set subs \<Longrightarrow> of_nat (fst (snd c)) \<notin> set (receivedChunks s)"
    and "length (receivedChunks s) + length subs < N"
  shows "final (snd (submitAll uid (map chunkReq subs) w)) = final w"
  using assms
proof (induction subs arbitrary: w s w1)
  case Nil
  then show ?case by simp
next
  case (Cons c rest)
  obtain t i b where c: "c = (t, i, b)" by (cases c)
  let ?rc = "receivedChunks s"
  let ?rc' = "recordChunk (of_nat i) ?rc"
  let ?s' = "s\<lparr>receivedChunks := ?rc'\<rparr>"
  have look: "lookupSession uid w = Some (s, w1)" by (rule Cons.prems(1))
  note w1 = lookupSession_SomeD[OF look]
  have inew: "of_nat i \<notin> set ?rc" using Cons.prems(4)[of c] c by simp
  have len': "length ?rc' = Suc (length ?rc)" using inew by (simp add: length_recordChunk)
  have ne: "js_nat (length ?rc') \<noteq> totalChunks s"
    using len' Cons.prems(2,5) by simp
  let ?w2 = "writeSessionMeta uid ?s'
              ((writeChunk uid (of_nat i) b w1)\<lparr>sessions := (sessions w1)(uid \<mapsto> ?s')\<rparr>)"
  have step: "uploadChunk t False uid (Num (of_nat i)) (Some b) w =
           (ChunkAccepted uid (of_nat i) (length ?rc') (totalChunks s) False None, ?w2)"
    by (rule uploadChunk_incomplete[OF look _ refl ne]) simp
  have hstep: "handle (UploadChunk t False uid (Num (of_nat i)) (Some b)) w
                 = uploadChunk t False uid (Num (of_nat i)) (Some b) w"
    by (rule handle_chunk) (simp add: step)
  have look2: "lookupSession uid ?w2 = Some (?s', ?w2)"
    by (rule lookupSession_registered) simp
  have fin2: "final ?w2 = final w" using w1(2) by simp
  have req: "chunkReq c = (t, False, js_nat i, Some b)" by (simp add: chunkReq_def c)
  have "final (snd (submitAll uid (map chunkReq rest) ?w2)) = final ?w2"
  proof (rule Cons.IH[OF look2])
    show "totalChunks ?s' = js_nat N" using Cons.prems(2) by simp
    show "distinct (map (\<lambda>c. fst (snd c)) rest)" using Cons.prems(3) by simp
    show "\<And>c'. c' \<in> set rest \<Longrightarrow> of_nat (fst (snd c')) \<notin> set (receivedChunks ?s')"
    proof -
      fix c' assume m: "c' \<in> set rest"
      then have "fst (snd c') \<noteq> i" using Cons.prems(3) c by auto
      moreover have "of_nat (fst (snd c')) \<notin> set ?rc" using Cons.prems(4)[of c'] m by simp
      ultimately show "of_nat (fst (snd c')) \<notin> set (receivedChunks ?s')" by simp
    qed
    show "length (receivedChunks ?s') + length rest < N" using len' Cons.prems(5) by simp
  qed
  then show ?case
    unfolding list.map req submitAll_Cons js_nat_def[of i] hstep step snd_conv fin2 .
qed

lemma flight_name8: "artifactName 8 ''a'' = ''8-a''"
  by (simp add: artifactName_def show_nat.simps digit_char_def safeName_a)

lemma flight_name7: "artifactName 7 ''a'' = ''7-a''"
  by (simp add: artifactName_def show_nat.simps digit_char_def safeName_a)

text \<open>
  Claim C2, as stated, fails in two ways. A session declared with no chunks has no
  submission at all: its status is complete from the init on, no flag makes a
  transition and no merge runs. And completion is decided by the test of line 163,
  while the session leaves the registry only at line 169, behind the awaits of the
  merge and of the removal: of two requests carrying the completing chunk that are in
  flight together, both pass the test, both run the merge, and both are answered
  \<open>complete = true\<close>, each with an artifact of its own.
\<close>

theorem duplicate_in_flight_merges_twice:
  "map completeFlag (fst (submitAll ''u0'' (map chunkReq []) zeroWorld)) = [] \<and>
   mergeCount ''u0'' (map chunkReq []) zeroWorld = 0 \<and>
   fst (uploadStatus ''u0'' zeroWorld) = StatusOk ''u0'' (js_nat 0) [] True \<and>
   fst flightBegin1 = Inr (oneSession\<lparr>receivedChunks := [0]\<rparr>, 0) \<and>
   fst flightBegin2 = Inr (oneSession\<lparr>receivedChunks := [0]\<rparr>, 0) \<and>
   fst flightMerge1 = Inr ''7-a'' \<and>
   fst flightMerge2 = Inr ''8-a'' \<and>
   fst flightEnd1 = ChunkAccepted ''u1'' 0 1 (js_nat 1) True (Some ''7-a'') \<and>
   fst flightEnd2 = ChunkAccepted ''u1'' 0 1 (js_nat 1) True (Some ''8-a'') \<and>
   final (snd flightEnd2) =
     [(''7-a'', \<lparr>content = ''X'', mtime = 7\<rparr>), (''8-a'', \<lparr>content = ''X'', mtime = 8\<rparr>)]"
proof -
  have z: "lookupSession ''u0'' zeroWorld \<noteq> None \<and>
           fst (uploadStatus ''u0'' zeroWorld) = StatusOk ''u0'' (js_nat 0) [] True"
    by (simp add: zeroWorld_def uploadInit_def uploadStatus_def lookupSession_def Let_def)
  have b1: "flightBegin1 =
      (Inr (oneSession\<lparr>receivedChunks := [0]\<rparr>, 0),
       (writeChunk ''u1'' 0 ''X'' oneWorld)
         \<lparr>sessions := (sessions oneWorld)(''u1'' \<mapsto> oneSession\<lparr>receivedChunks := [0]\<rparr>)\<rparr>)"
    by (simp add: flightBegin1_def chunkBegin_def one_lookup Let_def recordChunk_def oneSession_def)
  let ?wa = "(writeChunk ''u1'' 0 ''X'' oneWorld)
         \<lparr>sessions := (sessions oneWorld)(''u1'' \<mapsto> oneSession\<lparr>receivedChunks := [0]\<rparr>)\<rparr>"
  have looka: "lookupSession ''u1'' ?wa = Some (oneSession\<lparr>receivedChunks := [0]\<rparr>, ?wa)"
    by (rule lookupSession_registered) simp
  have b2: "fst flightBegin2 = Inr (oneSession\<lparr>receivedChunks := [0]\<rparr>, 0)"
    "chunkFiles ''u1'' (snd flightBegin2) 0 = Some ''X''"
    "final (snd flightBegin2) = []"
    unfolding flightBegin2_def b1 snd_conv
    by (simp_all add: chunkBegin_def looka Let_def recordChunk_def final_oneWorld,
        simp_all add: oneSession_def)
  have m1: "fst flightMerge1 = Inr ''7-a''"
    "chunkFiles ''u1'' (snd flightMerge1) 0 = Some ''X''"
    "final (snd flightMerge1) = [(''7-a'', \<lparr>content = ''X'', mtime = 7\<rparr>)]"
    unfolding flightMerge1_def
    by (simp_all add: mergeChunks_result mergeChunks_final oneSession_def mergeLoop.simps js_nat_def
          b2 flight_name7 chunkFiles_cong[of "snd (mergeChunks _ _ _ _)"])
  have m2: "fst flightMerge2 = Inr ''8-a''"
    "final (snd flightMerge2) =
       [(''7-a'', \<lparr>content = ''X'', mtime = 7\<rparr>), (''8-a'', \<lparr>content = ''X'', mtime = 8\<rparr>)]"
    unfolding flightMerge2_def
    by (simp_all add: mergeChunks_result mergeChunks_final oneSession_def mergeLoop.simps js_nat_def
          m1 flight_name8)
  have e1: "fst flightEnd1 = ChunkAccepted ''u1'' 0 1 (js_nat 1) True (Some ''7-a'')"
    "final (snd flightEnd1) = final (snd flightMerge2)"
    by (simp_all add: flightEnd1_def chunkEnd_def oneSession_def)
  have e2: "fst flightEnd2 = ChunkAccepted ''u1'' 0 1 (js_nat 1) True (Some ''8-a'')"
    "final (snd flightEnd2) = final (snd flightEnd1)"
    by (simp_all add: flightEnd2_def chunkEnd_def oneSession_def)
  have b1f: "fst flightBegin1 = Inr (oneSession\<lparr>receivedChunks := [0]\<rparr>, 0)"
    unfolding b1 by simp
  show ?thesis
    using z b1f b2(1) m1(1) m2 e1 e2 by simp
qed

text \<open>
  Claim C2, amended to \<open>N \<ge> 1\<close> and to requests handled one at a time (each to its end
  before the next): for a session of \<open>N\<close> chunks with nothing received yet, whose
  chunks are submitted in any order, the \<open>complete\<close> flag of the \<open>N\<close> outcomes is false
  \<open>N - 1\<close> times and then true; exactly one of the requests calls \<open>mergeChunks\<close>;
  \<open>uploads/final\<close> is as it was after each of the first \<open>N - 1\<close> requests and takes one
  write, the artifact, with the last; the session is then gone from the registry and
  from \<open>uploads/tmp\<close>; and sending the completing chunk once more (at any time, with
  any payload) is answered 404, calls no merge and changes nothing.
\<close>

theorem completes_exactly_once:
  assumes look: "lookupSession uid w = Some (s, w1)"
    and own: "uploadId s = uid"
    and fresh: "receivedChunks s = []"
    and total: "totalChunks s = js_nat N"
    and pos: "0 < N"
    and dist: "distinct (map (\<lambda>c. fst (snd c)) subs)"
    and all: "set (map (\<lambda>c. fst (snd c)) subs) = {..<N}"
  shows "map completeFlag (fst (submitAll uid (map chunkReq subs) w)) = replicate (N - 1) False @ [True] \<and>
         mergeCount uid (map chunkReq subs) w = 1 \<and>
         (\<forall>k<N. final (snd (submitAll uid (map chunkReq (take k subs)) w)) = final w) \<and>
         final (snd (submitAll uid (map chunkReq subs) w)) =
           AList.update (artifactName (fst (last subs)) (originalName s))
             \<lparr>content = concat (map (\<lambda>i. the (map_of (map snd subs) i)) [0..<N]),
              mtime = fst (last subs)\<rparr> (final w) \<and>
         sessions (snd (submitAll uid (map chunkReq subs) w)) uid = None \<and>
         tmp (snd (submitAll uid (map chunkReq subs) w)) uid = None \<and>
         uploadChunk now e uid (js_nat (fst (snd (last subs)))) (Some b)
             (snd (submitAll uid (map chunkReq subs) w)) =
           (NotFound ''upload session not found'', snd (submitAll uid (map chunkReq subs) w)) \<and>
         \<not> reachesMerge uid (js_nat (fst (snd (last subs)))) (Some b)
             (snd (submitAll uid (map chunkReq subs) w))"
proof -
  have len: "length subs = N" using dist all by (rule perm_length)
  then have ne: "subs \<noteq> []" using pos by auto
  let ?w' = "w\<lparr>sessions := (sessions w)(uid := None),
              tmp := (tmp w)(uid := None),
              final := AList.update (artifactName (fst (last subs)) (originalName s))
                         \<lparr>content = concat (map (\<lambda>i. the (map_of (map snd subs) i)) [0..<N]),
                          mtime = fst (last subs)\<rparr> (final w)\<rparr>"
  have P: "\<And>t i b. (t, i, b) \<in> set subs \<Longrightarrow> the (map_of (map snd subs) i) = b"
  proof -
    fix t i b assume "(t, i, b) \<in> set subs"
    then have "(i, b) \<in> set (map snd subs)" by force
    moreover have "distinct (map fst (map snd subs))" using dist by (simp add: comp_def)
    ultimately show "the (map_of (map snd subs) i) = b" by simp
  qed
  have run: "submitAll uid (map chunkReq subs) w =
           (map (chunkAck uid (originalName s) N) (enumerate (Suc (length (receivedChunks s))) subs), ?w')"
    by (rule run_chunks[OF ne look own total, where R = "{}"]) (use fresh dist all P in auto)
  have flags: "map completeFlag (map (chunkAck uid (originalName s) N) (enumerate (Suc 0) subs))
                 = replicate (N - 1) False @ [True]"
    unfolding map_map using flags_enumerate[of "completeFlag \<circ> chunkAck uid (originalName s) N" N subs "Suc 0"]
      ne len by simp
  have ran: "map mergeRan (map (chunkAck uid (originalName s) N) (enumerate (Suc 0) subs))
                 = replicate (N - 1) False @ [True]"
    unfolding map_map using flags_enumerate[of "mergeRan \<circ> chunkAck uid (originalName s) N" N subs "Suc 0"]
      ne len by simp
  have once: "mergeCount uid (map chunkReq subs) w = 1"
  proof -
    have "mergeCount uid (map chunkReq subs) w
            = length (filter id (map mergeRan (map (chunkAck uid (originalName s) N) (enumerate (Suc 0) subs))))"
      unfolding mergeCount_filter run fst_conv fresh list.size by (simp add: filter_map comp_def)
    also have "\<dots> = 1" unfolding ran by simp
    finally show ?thesis .
  qed
  have before: "\<forall>k<N. final (snd (submitAll uid (map chunkReq (take k subs)) w)) = final w"
  proof (intro allI impI)
    fix k assume k: "k < N"
    show "final (snd (submitAll uid (map chunkReq (take k subs)) w)) = final w"
    proof (rule run_chunks_prefix[OF look total])
      show "distinct (map (\<lambda>c. fst (snd c)) (take k subs))"
        using dist by (simp add: take_map[symmetric] distinct_take)
      show "\<And>c. c \<in> set (take k subs) \<Longrightarrow> of_nat (fst (snd c)) \<notin> set (receivedChunks s)"
        using fresh by simp
      show "length (receivedChunks s) + length (take k subs) < N"
        using fresh k len by simp
    qed
  qed
  have gone: "lookupSession uid ?w' = None"
    by (simp add: lookupSession_def readSessionMeta_def)
  have nf: "uploadChunk now e uid (js_nat (fst (snd (last subs)))) (Some b) ?w'
              = (NotFound ''upload session not found'', ?w')"
    using gone by (simp add: uploadChunk_def js_nat_def)
  have nm: "\<not> reachesMerge uid (js_nat (fst (snd (last subs)))) (Some b) ?w'"
    unfolding reachesMerge_iff gone by simp
  have fl: "map completeFlag (fst (submitAll uid (map chunkReq subs) w)) = replicate (N - 1) False @ [True]"
    unfolding run fst_conv fresh list.size by (rule flags)
  have w': "snd (submitAll uid (map chunkReq subs) w) = ?w'" unfolding run by simp
  have f: "final ?w' = AList.update (artifactName (fst (last subs)) (originalName s))
             \<lparr>content = concat (map (\<lambda>i. the (map_of (map snd subs) i)) [0..<N]),
              mtime = fst (last subs)\<rparr> (final w)" by simp
  have g: "sessions ?w' uid = None" "tmp ?w' uid = None" by simp_all
  show ?thesis
    unfolding w'
    by (rule conjI[OF fl[unfolded w'] conjI[OF once conjI[OF before[unfolded w']
          conjI[OF f conjI[OF g(1) conjI[OF g(2) conjI[OF nf nm]]]]]]])
qed

text \<open>
  Claim C2, amended, on the example session: flags false, false, true; one call of
  \<open>mergeChunks\<close>; the output area still empty after two chunks; then 404.
\<close>

theorem completes_exactly_once_witness:
  "map completeFlag (fst (submitAll ''u1''
       (map chunkReq [(101, 2, ''C''), (102, 0, ''AAA''), (103, 1, ''BB'')]) clipWorld))
     = [False, False, True] \<and>
   mergeCount ''u1'' (map chunkReq [(101, 2, ''C''), (102, 0, ''AAA''), (103, 1, ''BB'')]) clipWorld = 1 \<and>
   final (snd (submitAll ''u1'' (map chunkReq [(101, 2, ''C''), (102, 0, ''AAA'')]) clipWorld)) = [] \<and>
   final (snd (submitAll ''u1''
       (map chunkReq [(101, 2, ''C''), (102, 0, ''AAA''), (103, 1, ''BB'')]) clipWorld))
     = [(''103-clip.mp4'', \<lparr>content = ''AAABBC'', mtime = 103\<rparr>)] \<and>
   fst (uploadChunk 104 False ''u1'' (js_nat 1) (Some ''BB'')
         (snd (submitAll ''u1''
            (map chunkReq [(101, 2, ''C''), (102, 0, ''AAA''), (103, 1, ''BB'')]) clipWorld)))
     = NotFound ''upload session not found''"
proof -
  have set3: "{..<3::nat} = {2, 0, 1}" by auto
  have rep: "replicate 2 False = [False, False]" by (simp add: numeral_2_eq_2)
  have upt3: "[0..<3] = [0, 1, 2::nat]" by (simp add: upt_rec)
  have fin0: "final clipWorld = []"
    by (simp add: clipWorld_def uploadInit_def Let_def emptyWorld_def)
  have two: "take 2 [(101::nat, 2::nat, ''C''), (102, 0, ''AAA''), (103, 1, ''BB'')]
               = [(101, 2, ''C''), (102, 0, ''AAA'')]" by (simp add: numeral_2_eq_2)
  note inst = completes_exactly_once[of "''u1''" clipWorld clipSession clipWorld 3
        "[(101, 2, ''C''), (102, 0, ''AAA''), (103, 1, ''BB'')]" 104 False "''BB''"]
  have pre: "lookupSession ''u1'' clipWorld = Some (clipSession, clipWorld)"
    "uploadId clipSession = ''u1''" "receivedChunks clipSession = []"
    "totalChunks clipSession = js_nat 3" "0 < (3::nat)"
    "distinct (map (\<lambda>c. fst (snd c)) [(101::nat, 2::nat, ''C''), (102, 0, ''AAA''), (103, 1, ''BB'')])"
    "set (map (\<lambda>c. fst (snd c)) [(101::nat, 2::nat, ''C''), (102, 0, ''AAA''), (103, 1, ''BB'')]) = {..<3}"
    by (simp_all add: clip_lookup clipSession_def set3)
  note r = inst[OF pre]
  have k2: "final (snd (submitAll ''u1'' (map chunkReq [(101, 2, ''C''), (102, 0, ''AAA'')]) clipWorld)) = []"
    using r[THEN conjunct2, THEN conjunct2, THEN conjunct1, rule_format, of 2] two fin0 by simp
  show ?thesis
    using r k2
    by (simp add: rep upt3 artifactName_def show103 safeName_clip clipSession_def fin0)
qed

subsection \<open>A merge that fails\<close>

lemma mergeLoop_same_files:
  assumes "\<And>j. (dir j = None) = (dir' j = None)"
  shows "(fst (mergeLoop limit dir k out) = None) = (fst (mergeLoop limit dir' k out') = None)"
  using assms
proof (induction limit dir k out arbitrary: out' rule: mergeLoop.induct)
  case (1 limit dir k out)
  show ?case
  proof (cases "js_less (js_nat k) limit")
    case False
    then show ?thesis by (simp add: mergeLoop.simps)
  next
    case True
    show ?thesis
    proof (cases "dir (of_nat k)")
      case None
      then have "dir' (of_nat k) = None" using "1.prems" by simp
      then show ?thesis using None True by (simp add: mergeLoop.simps)
    next
      case (Some b)
      then obtain b' where b': "dir' (of_nat k) = Some b'" using "1.prems"[of "of_nat k"] by auto
      have "(fst (mergeLoop limit dir (Suc k) (out @ b)) = None)
              = (fst (mergeLoop limit dir' (Suc k) (out' @ b')) = None)"
        by (rule "1.IH"[OF True Some "1.prems"])
      then show ?thesis using Some b' True
        by (subst mergeLoop.simps, subst (2) mergeLoop.simps) simp
    qed
  qed
qed

lemma pair_facts:
  "lookupSession ''u1'' pairWorld =
     Some (oneSession\<lparr>totalChunks := js_nat 2, receivedChunks := [0]\<rparr>, pairWorld)"
  "chunkFiles ''u1'' pairWorld = [0 \<mapsto> ''X'']"
  "final pairWorld = []"
  "readSessionMeta ''u1'' pairWorld = Some (oneSession\<lparr>totalChunks := js_nat 2, receivedChunks := [0]\<rparr>)"
proof -
  let ?s0 = "oneSession\<lparr>totalChunks := js_nat 2\<rparr>"
  let ?w0 = "snd (uploadInit 100 ''u1'' (Some ''a'') None (Some (js_nat 2)) None emptyWorld)"
  have look0: "lookupSession ''u1'' ?w0 = Some (?s0, ?w0)"
    by (simp add: oneSession_def uploadInit_def lookupSession_def safeName_a Let_def)
  have ne: "js_nat (length (recordChunk 0 (receivedChunks ?s0))) \<noteq> totalChunks ?s0"
    by (simp add: oneSession_def recordChunk_def)
  note step = uploadChunk_incomplete[OF look0 order_refl refl ne, of 101 False "''X''"]
  have rc: "recordChunk 0 (receivedChunks ?s0) = [0]" by (simp add: oneSession_def recordChunk_def)
  have pw: "pairWorld = writeSessionMeta ''u1'' (?s0\<lparr>receivedChunks := [0]\<rparr>)
              ((writeChunk ''u1'' 0 ''X'' ?w0)\<lparr>sessions := (sessions ?w0)(''u1'' \<mapsto> ?s0\<lparr>receivedChunks := [0]\<rparr>)\<rparr>)"
  proof -
    have h1: "snd (handle (UploadInit 100 ''u1'' (Some ''a'') None (Some (js_nat 2)) None) emptyWorld) = ?w0"
      by (simp add: handle_snd uploadInit_def Let_def)
    have h2: "handle (UploadChunk 101 False ''u1'' (Num 0) (Some ''X'')) ?w0
                = uploadChunk 101 False ''u1'' (Num 0) (Some ''X'') ?w0"
      by (rule handle_chunk) (simp add: step)
    show ?thesis
      unfolding pairWorld_def run_Cons snd_conv run.simps(1) h1 h2 step rc ..
  qed
  show "lookupSession ''u1'' pairWorld =
     Some (oneSession\<lparr>totalChunks := js_nat 2, receivedChunks := [0]\<rparr>, pairWorld)"
    unfolding pw by (rule lookupSession_registered) simp
  show "chunkFiles ''u1'' pairWorld = [0 \<mapsto> ''X'']"
  proof -
    have "chunkFiles ''u1'' ?w0 = chunkFiles ''u1'' emptyWorld"
      by (simp add: uploadInit_def Let_def)
    then have c0: "chunkFiles ''u1'' ?w0 = Map.empty"
      by (simp add: chunkFiles_def emptyWorld_def)
    show ?thesis unfolding pw by (simp add: c0)
  qed
  show "final pairWorld = []"
    unfolding pw by (simp add: uploadInit_def Let_def emptyWorld_def)
  show "readSessionMeta ''u1'' pairWorld = Some (oneSession\<lparr>totalChunks := js_nat 2, receivedChunks := [0]\<rparr>)"
    unfolding pw by simp
qed

lemma name102a: "artifactName 102 ''a'' = ''102-a''"
  by (simp add: artifactName_def show_nat.simps digit_char_def safeName_a)

lemma pair_missing_chunk:
  "fst (handle (UploadChunk 102 False ''u1'' (Num 5) (Some ''Z'')) pairWorld) = Rejected (ENOENT 1)"
  "fst (uploadStatus ''u1'' (snd (handle (UploadChunk 102 False ''u1'' (Num 5) (Some ''Z'')) pairWorld)))
     = StatusOk ''u1'' (js_nat 2) [0, 5] True"
  "fst (listFiles (snd (handle (UploadChunk 102 False ''u1'' (Num 5) (Some ''Z'')) pairWorld)))
     = FileList [\<lparr>name = ''102-a'', sizeBytes = 1, modifiedAt = 102\<rparr>]"
proof -
  let ?s = "oneSession\<lparr>totalChunks := js_nat 2, receivedChunks := [0]\<rparr>"
  let ?s' = "?s\<lparr>receivedChunks := recordChunk 5 (receivedChunks ?s)\<rparr>"
  let ?w3 = "(writeChunk ''u1'' 5 ''Z'' pairWorld)\<lparr>sessions := (sessions pairWorld)(''u1'' \<mapsto> ?s')\<rparr>"
  have rc5: "recordChunk 5 [0] = [0, 5]" by (simp add: recordChunk_def)
  have rc: "recordChunk 5 (receivedChunks ?s) = [0, 5]" by (simp add: recordChunk_def)
  have eq: "js_nat (length (recordChunk 5 (receivedChunks ?s))) = totalChunks ?s"
    unfolding rc by simp
  note step = uploadChunk_merging[OF pair_facts(1) _ refl eq refl, of 102 False "''Z''", simplified]
  have cf: "chunkFiles (uploadId ?s') ?w3 = [0 \<mapsto> ''X'', 5 \<mapsto> ''Z'']"
    by (simp add: oneSession_def pair_facts(2))
  have loop: "mergeLoop (totalChunks ?s') (chunkFiles (uploadId ?s') ?w3) 0 [] = (Some (ENOENT 1), ''X'')"
    unfolding cf by (simp add: mergeLoop.simps js_nat_def)
  have res: "fst (mergeChunks 102 False ?s' ?w3) = Inl (ENOENT 1)"
    unfolding mergeChunks_result loop by simp
  have fin: "final (snd (mergeChunks 102 False ?s' ?w3)) = [(''102-a'', \<lparr>content = ''X'', mtime = 102\<rparr>)]"
    unfolding mergeChunks_final loop by (simp add: oneSession_def name102a pair_facts(3))
  have up: "uploadChunk 102 False ''u1'' (Num 5) (Some ''Z'') pairWorld
              = (Rejected (ENOENT 1), snd (mergeChunks 102 False ?s' ?w3))"
    using step res by simp
  have h: "handle (UploadChunk 102 False ''u1'' (Num 5) (Some ''Z'')) pairWorld
              = (Rejected (ENOENT 1), snd (mergeChunks 102 False ?s' ?w3))"
    using handle_chunk[of 102 False "''u1''" "Num 5" "Some ''Z''" pairWorld] up by simp
  have reg: "sessions (snd (mergeChunks 102 False ?s' ?w3)) ''u1'' = Some ?s'" by simp
  show "fst (handle (UploadChunk 102 False ''u1'' (Num 5) (Some ''Z'')) pairWorld) = Rejected (ENOENT 1)"
    unfolding h by simp
  show "fst (uploadStatus ''u1'' (snd (handle (UploadChunk 102 False ''u1'' (Num 5) (Some ''Z'')) pairWorld)))
              = StatusOk ''u1'' (js_nat 2) [0, 5] True"
    unfolding h snd_conv uploadStatus_def lookupSession_registered[OF reg] by (simp add: rc5)
  show "fst (listFiles (snd (handle (UploadChunk 102 False ''u1'' (Num 5) (Some ''Z'')) pairWorld)))
              = FileList [\<lparr>name = ''102-a'', sizeBytes = 1, modifiedAt = 102\<rparr>]"
    unfolding h snd_conv listFiles_def fin by (simp add: sortDesc_def statEntry_def)
qed

lemma one_write_error:
  "fst (handle (UploadChunk 101 True ''u1'' (Num 0) (Some ''X'')) oneWorld) = Rejected EIO"
proof -
  have rc1: "recordChunk 0 (receivedChunks oneSession) = [0]" by (simp add: oneSession_def recordChunk_def)
  have eq1: "js_nat (length (recordChunk 0 (receivedChunks oneSession))) = totalChunks oneSession"
    unfolding rc1 by (simp add: oneSession_def)
  have "fst (uploadChunk 101 True ''u1'' (Num 0) (Some ''X'') oneWorld) = Rejected EIO"
    by (subst uploadChunk_merging[OF one_lookup _ refl eq1 refl])
       (simp_all add: oneSession_def recordChunk_def mergeChunks_result mergeLoop.simps js_nat_def)
  then show ?thesis by simp
qed

lemma one_registered: "sessions oneWorld ''u1'' = Some oneSession"
  by (simp add: oneWorld_def oneSession_def uploadInit_def safeName_a Let_def)


lemma handle_chunk_RejectedD:
  assumes "handle (UploadChunk now e uid index part) w = (Rejected err, w')"
  shows "uploadChunk now e uid index part w = (Rejected err, snd (uploadChunk now e uid index part w))"
    and "w' = (if err = EIO then restart (snd (uploadChunk now e uid index part w))
               else snd (uploadChunk now e uid index part w))"
proof -
  have f: "fst (uploadChunk now e uid index part w) = Rejected err"
    using assms handle_fst[of "UploadChunk now e uid index part" w] by simp
  then show "uploadChunk now e uid index part w = (Rejected err, snd (uploadChunk now e uid index part w))"
    by (simp add: prod_eq_iff)
  have "w' = snd (handle (UploadChunk now e uid index part) w)" using assms by simp
  then show "w' = (if err = EIO then restart (snd (uploadChunk now e uid index part w))
               else snd (uploadChunk now e uid index part w))"
    unfolding handle_snd using f by (cases err) simp_all
qed



subsection \<open>Live streams\<close>

lemma update_absent:
  "map_of al k = None \<Longrightarrow> AList.update k v al = al @ [(k, v)]"
  by (induction al) (auto split: if_splits)

lemma map_of_last_entry:
  "map_of al k = None \<Longrightarrow> map_of (al @ [(k, v)]) k = Some v"
  by (simp add: map_add_def)

lemma streamInit_fresh:
  assumes "map_of (final w) (liveName now fn) = None"
  shows "streamInit now sid fn mime w =
           (StreamCreated sid (liveName now fn),
            w\<lparr>final := final w @ [(liveName now fn, \<lparr>content = [], mtime = now\<rparr>)],
              liveStreams := (liveStreams w)(sid \<mapsto>
                \<lparr>streamId = sid, finalName = liveName now fn,
                 ls_mimeType = (case mime of None \<Rightarrow> ''video/webm'' | Some t \<Rightarrow> t),
                 chunkCount = 0, bytesWritten = 0, startedAt = now\<rparr>)\<rparr>)"
  using assms by (simp add: streamInit_def Let_def liveName_def openAppend_def update_absent)

lemma streamFinish_live:
  assumes "liveStreams w sid = Some st"
  shows "streamFinish False sid w =
           (StreamFinished sid (finalName st) (bytesWritten st) (chunkCount st),
            w\<lparr>liveStreams := (liveStreams w)(sid := None)\<rparr>)"
  using assms by (simp add: streamFinish_def)

lemma stream_unknown:
  assumes "liveStreams w sid = None"
  shows "streamChunk t e sid part w = (NotFound ''live stream session not found'', w)"
    and "streamFinish e' sid w = (NotFound ''live stream session not found'', w)"
  using assms by (simp_all add: streamChunk_def streamFinish_def)

text \<open>
  An error of the writer of a live stream ends the process: the stream, like every
  other one, is registered no longer, and its next request is answered 404.
\<close>

lemma stream_write_error:
  assumes "liveStreams w sid = Some st"
  shows "handle (StreamChunk now True sid (Some b)) w = (Rejected EIO, restart w)"
    and "handle (StreamFinish True sid) w = (Rejected EIO, restart w)"
    and "handle (StreamChunk t e sid part) (restart w)
           = (NotFound ''live stream session not found'', restart w)"
  using assms by (simp_all add: handle_def streamChunk_def streamFinish_def)

lemma run_append:
  "run (xs @ ys) w = (fst (run xs w) @ fst (run ys (snd (run xs w))), snd (run ys (snd (run xs w))))"
  by (induction xs arbitrary: w) (simp_all add: run_Cons)

lemma ownChunks_Cons: "ownChunks sid (r # rs) = ownChunk sid r @ ownChunks sid rs"
  by (simp add: ownChunks_def)

lemma ownChunks_Nil [simp]: "ownChunks sid [] = []"
  by (simp add: ownChunks_def)

lemma ownChunk_other: "\<not> appendsTo sid r \<Longrightarrow> ownChunk sid r = []"
  by (cases "(sid, r)" rule: ownChunk.cases) auto

lemma uploadChunk_liveStreams [simp]:
  "liveStreams (snd (uploadChunk now e uid index part w)) = liveStreams w"
proof (cases "\<exists>b i. part = Some b \<and> index = Num i \<and> 0 \<le> i")
  case False
  from uploadChunk_invalid[OF False] show ?thesis by simp
next
  case True
  then obtain b i where p: "part = Some b" and ix: "index = Num i" and i0: "0 \<le> i" by blast
  show ?thesis
  proof (cases "lookupSession uid w")
    case None
    from uploadChunk_unknown[OF None i0] show ?thesis unfolding p ix by simp
  next
    case (Some sw)
    obtain s w0 where look: "lookupSession uid w = Some (s, w0)" using Some by (cases sw) simp
    note w0 = lookupSession_SomeD[OF look]
    let ?rc' = "recordChunk i (receivedChunks s)"
    let ?s' = "s\<lparr>receivedChunks := ?rc'\<rparr>"
    let ?w3 = "(writeChunk uid i b w0)\<lparr>sessions := (sessions w0)(uid \<mapsto> ?s')\<rparr>"
    show ?thesis
    proof (cases "js_nat (length ?rc') = totalChunks s")
      case False
      note step = uploadChunk_incomplete[OF look i0 refl False, of now e b]
      show ?thesis unfolding p ix step snd_conv using w0 by simp
    next
      case True
      note step = uploadChunk_merging[OF look i0 refl True refl, of now e b]
      show ?thesis unfolding p ix step using w0
        by (cases "fst (mergeChunks now e ?s' ?w3)") simp_all
    qed
  qed
qed

lemma route_liveStreams_other:
  assumes "\<not> appendsTo sid r" "\<not> opensOrCloses sid r"
  shows "liveStreams (snd (route r w)) sid = liveStreams w sid"
proof (cases r)
  case (UploadInit now u filename tSize tChunks mime)
  show ?thesis unfolding UploadInit route.simps
    by (auto simp: uploadInit_def Let_def split: option.splits)
next
  case (UploadStatus u)
  show ?thesis unfolding UploadStatus route.simps
    by (auto simp: uploadStatus_def lookupSession_def split: option.splits)
next
  case (UploadChunk now e u index part)
  show ?thesis unfolding UploadChunk route.simps by simp
next
  case (StreamInit now sid' filename mime)
  then have "sid' \<noteq> sid" using assms(2) by simp
  then show ?thesis unfolding StreamInit route.simps by (simp add: streamInit_def Let_def)
next
  case (StreamChunk now e sid' part)
  then have "sid' \<noteq> sid" using assms(1) by simp
  then show ?thesis unfolding StreamChunk route.simps
    by (simp add: streamChunk_def Let_def split: option.splits)
next
  case (StreamFinish e sid')
  then have "sid' \<noteq> sid" using assms(2) by simp
  then show ?thesis unfolding StreamFinish route.simps
    by (simp add: streamFinish_def split: option.splits)
next
  case ListFiles
  then show ?thesis by (simp add: listFiles_def)
qed

lemma undisturbed_run:
  assumes "liveStreams w sid = Some st" and "map_of (final w) (finalName st) = Some f"
    and "undisturbed (finalName st) sid rs w"
  shows "liveStreams (snd (run rs w)) sid =
           Some (st\<lparr>chunkCount := chunkCount st + length (ownChunks sid rs),
                    bytesWritten := bytesWritten st + length (concat (map snd (ownChunks sid rs)))\<rparr>) \<and>
         map_of (final (snd (run rs w))) (finalName st) =
           Some \<lparr>content = content f @ concat (map snd (ownChunks sid rs)),
                 mtime = last (mtime f # map fst (ownChunks sid rs))\<rparr>"
  using assms
proof (induction rs arbitrary: w st f)
  case Nil
  then show ?case by simp
next
  case (Cons r rs)
  from Cons.prems(3) have alive: "\<not> processEnds (fst (route r w))"
    and noinit: "\<not> opensOrCloses sid r"
    and quiet: "appendsTo sid r \<or> \<not> writesFile (finalName st) r w"
    and rest: "undisturbed (finalName st) sid rs (snd (handle r w))"
    by simp_all
  have h: "handle r w = route r w" by (rule handle_alive[OF alive])
  show ?case
  proof (cases "appendsTo sid r")
    case False
    have ls: "liveStreams (snd (route r w)) sid = Some st"
      using route_liveStreams_other[OF False noinit] Cons.prems(1) by simp
    have fl: "map_of (final (snd (route r w))) (finalName st) = Some f"
      using quiet False Cons.prems(2) unfolding writesFile_def by simp
    from Cons.IH[OF ls fl] rest h ownChunk_other[OF False]
    show ?thesis unfolding run_Cons snd_conv h ownChunks_Cons by simp
  next
    case True
    then obtain now e part where r: "r = StreamChunk now e sid part"
      by (cases r) auto
    show ?thesis
    proof (cases part)
      case None
      have same: "route r w = (BadRequest ''chunk is required'', w)"
        unfolding r route.simps None using Cons.prems(1) by (simp add: streamChunk_def)
      have oc: "ownChunk sid r = []" unfolding r None by simp
      from Cons.IH[OF Cons.prems(1,2)] rest
      show ?thesis unfolding run_Cons snd_conv h same ownChunks_Cons oc by simp
    next
      case (Some b)
      have ne: "\<not> e"
      proof
        assume e
        then have "fst (route r w) = Rejected EIO"
          unfolding r route.simps Some using Cons.prems(1) by (simp add: streamChunk_def)
        then show False using alive by simp
      qed
      let ?st1 = "st\<lparr>chunkCount := chunkCount st + 1, bytesWritten := bytesWritten st + length b\<rparr>"
      let ?f1 = "\<lparr>content = content f @ b, mtime = now\<rparr>"
      let ?w1 = "w\<lparr>final := AList.update (finalName st) ?f1 (final w),
                   liveStreams := (liveStreams w)(sid \<mapsto> ?st1)\<rparr>"
      have step: "route r w = (StreamChunkAccepted sid (chunkCount st + 1) (bytesWritten st + length b), ?w1)"
        unfolding r route.simps Some using Cons.prems(1,2) ne
        by (simp add: streamChunk_def appendFile_def Let_def)
      have ls: "liveStreams ?w1 sid = Some ?st1" by simp
      have fl: "map_of (final ?w1) (finalName ?st1) = Some ?f1" by (simp add: update_conv')
      have rest1: "undisturbed (finalName ?st1) sid rs ?w1"
        using rest unfolding h step by simp
      have oc: "ownChunk sid r = [(now, b)]" unfolding r Some by simp
      from Cons.IH[OF ls fl rest1]
      show ?thesis unfolding run_Cons snd_conv h step ownChunks_Cons oc
        by (simp add: add.assoc)
    qed
  qed
qed

lemma live_run:
  assumes fresh: "map_of (final w) (liveName now fn) = None"
    and quiet: "undisturbed (liveName now fn) sid rs (snd (handle (StreamInit now sid fn mime) w))"
  shows "fst (run (liveRequests now sid fn mime rs) w) =
           StreamCreated sid (liveName now fn)
             # fst (run rs (snd (handle (StreamInit now sid fn mime) w)))
             @ [StreamFinished sid (liveName now fn)
                  (length (concat (map snd (ownChunks sid rs)))) (length (ownChunks sid rs))]"
    and "liveStreams (snd (run (liveRequests now sid fn mime rs) w)) sid = None"
    and "final (snd (run (liveRequests now sid fn mime rs) w))
           = final (snd (run rs (snd (handle (StreamInit now sid fn mime) w))))"
    and "map_of (final (snd (run (liveRequests now sid fn mime rs) w))) (liveName now fn) =
           Some \<lparr>content = concat (map snd (ownChunks sid rs)),
                 mtime = last (now # map fst (ownChunks sid rs))\<rparr>"
proof -
  let ?st = "\<lparr>streamId = sid, finalName = liveName now fn,
                 ls_mimeType = (case mime of None \<Rightarrow> ''video/webm'' | Some t \<Rightarrow> t),
                 chunkCount = 0, bytesWritten = 0, startedAt = now\<rparr>"
  let ?w1 = "w\<lparr>final := final w @ [(liveName now fn, \<lparr>content = [], mtime = now\<rparr>)],
              liveStreams := (liveStreams w)(sid \<mapsto> ?st)\<rparr>"
  have init: "handle (StreamInit now sid fn mime) w = (StreamCreated sid (liveName now fn), ?w1)"
    using handle_alive[of "StreamInit now sid fn mime" w] streamInit_fresh[OF fresh, of sid mime]
    by simp
  have ls: "liveStreams ?w1 sid = Some ?st" by simp
  have fl: "map_of (final ?w1) (finalName ?st) = Some \<lparr>content = [], mtime = now\<rparr>"
    using map_of_last_entry[OF fresh] by simp
  have q: "undisturbed (finalName ?st) sid rs ?w1" using quiet unfolding init by simp
  note mid = undisturbed_run[OF ls fl q]
  let ?w2 = "snd (run rs ?w1)"
  let ?st2 = "?st\<lparr>chunkCount := chunkCount ?st + length (ownChunks sid rs),
                    bytesWritten := bytesWritten ?st + length (concat (map snd (ownChunks sid rs)))\<rparr>"
  have ls2: "liveStreams ?w2 sid = Some ?st2" using mid by simp
  have fin: "handle (StreamFinish False sid) ?w2 =
               (StreamFinished sid (liveName now fn)
                  (length (concat (map snd (ownChunks sid rs)))) (length (ownChunks sid rs)),
                ?w2\<lparr>liveStreams := (liveStreams ?w2)(sid := None)\<rparr>)"
    using handle_alive[of "StreamFinish False sid" ?w2] streamFinish_live[OF ls2] by simp
  have r: "run (liveRequests now sid fn mime rs) w =
             (StreamCreated sid (liveName now fn) # fst (run rs ?w1)
                @ [StreamFinished sid (liveName now fn)
                     (length (concat (map snd (ownChunks sid rs)))) (length (ownChunks sid rs))],
              ?w2\<lparr>liveStreams := (liveStreams ?w2)(sid := None)\<rparr>)"
    unfolding liveRequests_def run_Cons init fst_conv snd_conv run_append fin run.simps(1)
    by simp
  show "fst (run (liveRequests now sid fn mime rs) w) =
           StreamCreated sid (liveName now fn)
             # fst (run rs (snd (handle (StreamInit now sid fn mime) w)))
             @ [StreamFinished sid (liveName now fn)
                  (length (concat (map snd (ownChunks sid rs)))) (length (ownChunks sid rs))]"
    unfolding r init by simp
  show "liveStreams (snd (run (liveRequests now sid fn mime rs) w)) sid = None"
    unfolding r by simp
  show "final (snd (run (liveRequests now sid fn mime rs) w))
           = final (snd (run rs (snd (handle (StreamInit now sid fn mime) w))))"
    unfolding r init by simp
  show "map_of (final (snd (run (liveRequests now sid fn mime rs) w))) (liveName now fn) =
           Some \<lparr>content = concat (map snd (ownChunks sid rs)),
                 mtime = last (now # map fst (ownChunks sid rs))\<rparr>"
    unfolding r using mid by (simp del: last.simps)
qed

text \<open>
  Claim C6, amended: for a live stream whose artifact name is not in the output area
  when it is initialised and which is left alone until its finish (no process exit,
  no other init or finish under its id, no other stream and no merge writing to its
  artifact; any other requests may be handled in between), the artifact holds after
  the finish the payloads \<open>P1 @ ... @ Pk\<close> of its appends in call order; finish returns
  the artifact name, \<open>bytesWritten\<close> equal to the total size of the payloads and
  \<open>chunks = k\<close>, and removes the session, so that any later append or finish for this
  stream id is answered 404 and changes nothing.
\<close>

theorem live_stream_in_call_order:
  assumes fresh: "map_of (final w) (liveName now fn) = None"
    and quiet: "undisturbed (liveName now fn) sid rs (snd (handle (StreamInit now sid fn mime) w))"
  shows "last (fst (run (liveRequests now sid fn mime rs) w))
           = StreamFinished sid (liveName now fn)
               (sum_list (map (\<lambda>p. length (snd p)) (ownChunks sid rs))) (length (ownChunks sid rs)) \<and>
         map_option content
             (map_of (final (snd (run (liveRequests now sid fn mime rs) w))) (liveName now fn))
           = Some (concat (map snd (ownChunks sid rs))) \<and>
         liveStreams (snd (run (liveRequests now sid fn mime rs) w)) sid = None \<and>
         handle (StreamChunk t e sid part) (snd (run (liveRequests now sid fn mime rs) w))
           = (NotFound ''live stream session not found'',
              snd (run (liveRequests now sid fn mime rs) w)) \<and>
         handle (StreamFinish e' sid) (snd (run (liveRequests now sid fn mime rs) w))
           = (NotFound ''live stream session not found'',
              snd (run (liveRequests now sid fn mime rs) w))"
proof -
  let ?w3 = "snd (run (liveRequests now sid fn mime rs) w)"
  note run = live_run[OF fresh quiet]
  have len: "length (concat (map snd (ownChunks sid rs)))
               = sum_list (map (\<lambda>p. length (snd p)) (ownChunks sid rs))"
    by (simp add: length_concat comp_def)
  have a: "last (fst (run (liveRequests now sid fn mime rs) w))
           = StreamFinished sid (liveName now fn)
               (sum_list (map (\<lambda>p. length (snd p)) (ownChunks sid rs))) (length (ownChunks sid rs))"
    unfolding run(1) using len by simp
  have b: "map_option content (map_of (final ?w3) (liveName now fn))
             = Some (concat (map snd (ownChunks sid rs)))"
    unfolding run(4) by simp
  note nf = stream_unknown[OF run(2)]
  have c: "handle (StreamChunk t e sid part) ?w3 = (NotFound ''live stream session not found'', ?w3)"
    using handle_alive[of "StreamChunk t e sid part" ?w3] nf(1)[of t e part] by simp
  have d: "handle (StreamFinish e' sid) ?w3 = (NotFound ''live stream session not found'', ?w3)"
    using handle_alive[of "StreamFinish e' sid" ?w3] nf(2)[of e'] by simp
  show ?thesis by (rule conjI[OF a conjI[OF b conjI[OF run(2) conjI[OF c d]]]])
qed

lemma safeName_live: "safeName ''live.webm'' = ''live.webm''"
  by (simp add: safeName_def safe_char_def)

lemma liveName5: "liveName 5 None = ''5-live.webm''"
  by (simp add: liveName_def artifactName_def show_nat.simps digit_char_def safeName_live)

lemma liveName6: "liveName 6 None = ''6-live.webm''"
  by (simp add: liveName_def artifactName_def show_nat.simps digit_char_def safeName_live)

lemma mixed_own: "ownChunks ''s1'' mixedRequests = [(6, ''AB''), (8, ''C'')]"
  by (simp add: ownChunks_def mixedRequests_def)

lemma mixed_undisturbed:
  "undisturbed ''5-live.webm'' ''s1'' mixedRequests (snd (handle (StreamInit 5 ''s1'' None None) emptyWorld))"
proof -
  have n5: "artifactName 5 ''live.webm'' = ''5-live.webm''" using liveName5 by (simp add: liveName_def)
  have n6: "artifactName 6 ''live.webm'' = ''6-live.webm''" using liveName6 by (simp add: liveName_def)
  show ?thesis
    by (simp add: mixedRequests_def handle_snd writesFile_def streamInit_def streamChunk_def
          listFiles_def openAppend_def appendFile_def Let_def emptyWorld_def n5 n6)
qed

text \<open>
  Claim C6, amended, on a stream \<open>s1\<close> that appends \<open>AB\<close> and \<open>C\<close> while a listing is
  answered and a second stream is started and written to.
\<close>

theorem live_stream_in_call_order_witness:
  "map_of (final emptyWorld) (liveName 5 None) = None \<and>
   undisturbed (liveName 5 None) ''s1'' mixedRequests (snd (handle (StreamInit 5 ''s1'' None None) emptyWorld)) \<and>
   last (fst (run (liveRequests 5 ''s1'' None None mixedRequests) emptyWorld))
     = StreamFinished ''s1'' ''5-live.webm'' 3 2 \<and>
   map_option content
     (map_of (final (snd (run (liveRequests 5 ''s1'' None None mixedRequests) emptyWorld))) ''5-live.webm'')
     = Some ''ABC''"
proof -
  have fresh: "map_of (final emptyWorld) (liveName 5 None) = None" by (simp add: emptyWorld_def)
  have quiet: "undisturbed (liveName 5 None) ''s1'' mixedRequests
                 (snd (handle (StreamInit 5 ''s1'' None None) emptyWorld))"
    unfolding liveName5 by (rule mixed_undisturbed)
  show ?thesis
    using live_stream_in_call_order[OF fresh quiet] fresh quiet
    by (simp add: liveName5 mixed_own)
qed

lemma cross_facts:
  "final crossWorld = [(''5-live.webm'', \<lparr>content = ''XA'', mtime = 7\<rparr>)]"
  "liveStreams crossWorld ''b'' = Some \<lparr>streamId = ''b'', finalName = ''5-live.webm'',
      ls_mimeType = ''video/webm'', chunkCount = 1, bytesWritten = 1, startedAt = 5\<rparr>"
  "liveStreams crossWorld ''a'' = Some \<lparr>streamId = ''a'', finalName = ''5-live.webm'',
      ls_mimeType = ''video/webm'', chunkCount = 1, bytesWritten = 1, startedAt = 5\<rparr>"
proof -
  have n: "artifactName 5 ''live.webm'' = ''5-live.webm''"
    using liveName5 by (simp add: liveName_def)
  have tw: "final liveTwins = [(''5-live.webm'', \<lparr>content = [], mtime = 5\<rparr>)]"
    "liveStreams liveTwins ''a'' = Some \<lparr>streamId = ''a'', finalName = ''5-live.webm'',
        ls_mimeType = ''video/webm'', chunkCount = 0, bytesWritten = 0, startedAt = 5\<rparr>"
    "liveStreams liveTwins ''b'' = Some \<lparr>streamId = ''b'', finalName = ''5-live.webm'',
        ls_mimeType = ''video/webm'', chunkCount = 0, bytesWritten = 0, startedAt = 5\<rparr>"
    by (simp_all add: liveTwins_def streamInit_def Let_def n openAppend_def emptyWorld_def)
  show "final crossWorld = [(''5-live.webm'', \<lparr>content = ''XA'', mtime = 7\<rparr>)]"
    "liveStreams crossWorld ''b'' = Some \<lparr>streamId = ''b'', finalName = ''5-live.webm'',
        ls_mimeType = ''video/webm'', chunkCount = 1, bytesWritten = 1, startedAt = 5\<rparr>"
    "liveStreams crossWorld ''a'' = Some \<lparr>streamId = ''a'', finalName = ''5-live.webm'',
        ls_mimeType = ''video/webm'', chunkCount = 1, bytesWritten = 1, startedAt = 5\<rparr>"
    by (simp_all add: crossWorld_def streamChunk_def Let_def tw appendFile_def)
qed

text \<open>
  Claim C6, as stated, fails: the file is opened for appending under a name that only
  the millisecond and the file name decide. Two streams initialised in the same
  millisecond with the default name write to the same file, the first of them having
  found the name absent at its init: stream \<open>a\<close> appends \<open>X\<close>, stream \<open>b\<close> appends \<open>A\<close>;
  the finish of either reports \<open>bytesWritten = 1\<close>, \<open>chunks = 1\<close>, and the artifact
  reads \<open>XA\<close>.
\<close>

theorem shared_live_file_interleaves:
  "map_of (final emptyWorld) (liveName 5 None) = None \<and>
   streamFinish False ''a'' crossWorld
     = (StreamFinished ''a'' ''5-live.webm'' 1 1,
        crossWorld\<lparr>liveStreams := (liveStreams crossWorld)(''a'' := None)\<rparr>) \<and>
   streamFinish False ''b'' crossWorld
     = (StreamFinished ''b'' ''5-live.webm'' 1 1,
        crossWorld\<lparr>liveStreams := (liveStreams crossWorld)(''b'' := None)\<rparr>) \<and>
   map_of (final crossWorld) ''5-live.webm'' = Some \<lparr>content = ''XA'', mtime = 7\<rparr>"
proof -
  have fresh: "map_of (final emptyWorld) (liveName 5 None) = None" by (simp add: emptyWorld_def)
  show ?thesis
    using streamFinish_live[OF cross_facts(2)] streamFinish_live[OF cross_facts(3)]
      cross_facts(1) fresh by simp
qed

subsection \<open>The catalog of artifacts\<close>

lemma catalog_eq: "catalog w = sortDesc (map statEntry (final w))"
  by (simp add: catalog_def listFiles_def)

lemma mset_insertDesc: "mset (insertDesc e xs) = add_mset e (mset xs)"
  by (induction xs) auto

lemma mset_sortDesc: "mset (sortDesc es) = mset es"
  unfolding sortDesc_def by (induction es) (simp_all add: mset_insertDesc)

lemma set_insertDesc: "set (insertDesc e xs) = insert e (set xs)"
  by (induction xs) auto

lemma sorted_insertDesc:
  "sorted_wrt (\<lambda>a b. modifiedAt b \<le> modifiedAt a) xs \<Longrightarrow>
   sorted_wrt (\<lambda>a b. modifiedAt b \<le> modifiedAt a) (insertDesc e xs)"
  by (induction xs) (auto simp: set_insertDesc)

lemma sorted_sortDesc: "sorted_wrt (\<lambda>a b. modifiedAt b \<le> modifiedAt a) (sortDesc es)"
  unfolding sortDesc_def by (induction es) (simp_all add: sorted_insertDesc)

lemma catalog_new_file:
  assumes "final w' = final w @ [(fname, f)]"
  shows "mset (catalog w') =
           add_mset \<lparr>name = fname, sizeBytes = length (content f), modifiedAt = mtime f\<rparr> (mset (catalog w))"
  unfolding catalog_eq mset_sortDesc assms by (simp add: statEntry_def)

lemma filter_key_absent: "map_of al k = None \<Longrightarrow> filter (\<lambda>p. fst p = k) al = []"
  by (induction al) (auto split: if_splits)

lemma filter_key_present:
  "distinct (map fst al) \<Longrightarrow> map_of al k = Some v \<Longrightarrow> filter (\<lambda>p. fst p = k) al = [(k, v)]"
proof (induction al)
  case Nil
  then show ?case by simp
next
  case (Cons p al)
  show ?case
  proof (cases "fst p = k")
    case True
    then have "map_of al k = None" using Cons.prems(1) by (auto simp: map_of_eq_None_iff)
    then have "filter (\<lambda>p. fst p = k) al = []" by (rule filter_key_absent)
    moreover have "p = (k, v)" using True Cons.prems(2) by (cases p) auto
    ultimately show ?thesis by simp
  next
    case False
    then show ?thesis using Cons by (cases p) auto
  qed
qed

lemma catalog_filter:
  "mset (filter (\<lambda>x. name x = k) (catalog w))
     = mset (map statEntry (filter (\<lambda>p. fst p = k) (final w)))"
proof -
  have "mset (filter (\<lambda>x. name x = k) (catalog w))
          = filter_mset (\<lambda>x. name x = k) (mset (map statEntry (final w)))"
    unfolding catalog_eq by (simp add: mset_sortDesc)
  also have "\<dots> = mset (filter (\<lambda>x. name x = k) (map statEntry (final w)))" by simp
  also have "filter (\<lambda>x. name x = k) (map statEntry (final w))
               = map statEntry (filter (\<lambda>p. fst p = k) (final w))"
    by (simp add: filter_map comp_def statEntry_def)
  finally show ?thesis .
qed

lemma catalog_absent:
  assumes "map_of (final w) k = None"
  shows "filter (\<lambda>x. name x = k) (catalog w) = []"
  using catalog_filter[of k w] filter_key_absent[OF assms] by simp

lemma catalog_named:
  assumes "distinct (map fst (final w))" "map_of (final w) k = Some f"
  shows "filter (\<lambda>x. name x = k) (catalog w)
           = [\<lparr>name = k, sizeBytes = length (content f), modifiedAt = mtime f\<rparr>]"
proof -
  have "mset (filter (\<lambda>x. name x = k) (catalog w))
          = {#\<lparr>name = k, sizeBytes = length (content f), modifiedAt = mtime f\<rparr>#}"
    using catalog_filter[of k w] filter_key_present[OF assms] by (simp add: statEntry_def)
  then show ?thesis by (metis mset_single_iff_right mset.simps(1) mset.simps(2))
qed

lemma uploadChunk_final_cases:
  "final (snd (uploadChunk now e uid index part w)) = final w \<or>
   (\<exists>k v. final (snd (uploadChunk now e uid index part w)) = AList.update k v (final w))"
proof (cases "\<exists>b i. part = Some b \<and> index = Num i \<and> 0 \<le> i")
  case False
  from uploadChunk_invalid[OF False] show ?thesis by simp
next
  case True
  then obtain b i where p: "part = Some b" and ix: "index = Num i" and i0: "0 \<le> i" by blast
  show ?thesis
  proof (cases "lookupSession uid w")
    case None
    from uploadChunk_unknown[OF None i0] show ?thesis unfolding p ix by simp
  next
    case (Some sw)
    obtain s w0 where look: "lookupSession uid w = Some (s, w0)" using Some by (cases sw) simp
    note w0 = lookupSession_SomeD[OF look]
    let ?rc' = "recordChunk i (receivedChunks s)"
    let ?s' = "s\<lparr>receivedChunks := ?rc'\<rparr>"
    let ?w3 = "(writeChunk uid i b w0)\<lparr>sessions := (sessions w0)(uid \<mapsto> ?s')\<rparr>"
    show ?thesis
    proof (cases "js_nat (length ?rc') = totalChunks s")
      case False
      note step = uploadChunk_incomplete[OF look i0 refl False, of now e b]
      show ?thesis unfolding p ix step snd_conv using w0 by simp
    next
      case True
      note step = uploadChunk_merging[OF look i0 refl True refl, of now e b]
      have "final (snd (uploadChunk now e uid (Num i) (Some b) w)) = final (snd (mergeChunks now e ?s' ?w3))"
        unfolding step by (cases "fst (mergeChunks now e ?s' ?w3)") simp_all
      then show ?thesis unfolding p ix mergeChunks_final using w0 by auto
    qed
  qed
qed

lemma route_final_cases:
  "final (snd (route r w)) = final w \<or> (\<exists>k v. final (snd (route r w)) = AList.update k v (final w))"
proof (cases r)
  case (UploadInit now u filename tSize tChunks mime)
  show ?thesis unfolding UploadInit route.simps
    by (auto simp: uploadInit_def Let_def split: option.splits)
next
  case (UploadStatus u)
  show ?thesis unfolding UploadStatus route.simps
    by (auto simp: uploadStatus_def lookupSession_def split: option.splits)
next
  case (UploadChunk now e u index part)
  show ?thesis unfolding UploadChunk route.simps by (rule uploadChunk_final_cases)
next
  case (StreamInit now sid filename mime)
  show ?thesis unfolding StreamInit route.simps
    by (auto simp: streamInit_def openAppend_def Let_def split: option.splits)
next
  case (StreamChunk now e sid part)
  show ?thesis unfolding StreamChunk route.simps
    by (auto simp: streamChunk_def appendFile_def Let_def split: option.splits)
next
  case (StreamFinish e sid)
  show ?thesis unfolding StreamFinish route.simps
    by (auto simp: streamFinish_def split: option.splits)
next
  case ListFiles
  then show ?thesis by (simp add: listFiles_def)
qed

lemma handle_distinct_final:
  "distinct (map fst (final w)) \<Longrightarrow> distinct (map fst (final (snd (handle r w))))"
  using route_final_cases[of r w] by (auto simp: distinct_update)

lemma run_distinct_final:
  "distinct (map fst (final w)) \<Longrightarrow> distinct (map fst (final (snd (run rs w))))"
proof (induction rs arbitrary: w)
  case Nil
  then show ?case by simp
next
  case (Cons r rs)
  from Cons.IH[OF handle_distinct_final[OF Cons.prems]] show ?case by (simp add: run_Cons)
qed

lemma reachable_distinct_final:
  "w = snd (run rs emptyWorld) \<Longrightarrow> distinct (map fst (final w))"
  using run_distinct_final[of emptyWorld rs] by (simp add: emptyWorld_def)

lemma mergeLoop_present:
  "fst (mergeLoop (js_nat n) dir k out) = None \<Longrightarrow> k \<le> j \<Longrightarrow> j < n \<Longrightarrow> dir (of_nat j) \<noteq> None"
proof (induction "n - k" arbitrary: k out)
  case 0
  then show ?case by simp
next
  case (Suc d)
  then have kn: "k < n" by simp
  show ?case
  proof (cases "dir (of_nat k)")
    case None
    then show ?thesis using Suc.prems(1) kn by (subst (asm) mergeLoop.simps) simp
  next
    case (Some b)
    then have nxt: "fst (mergeLoop (js_nat n) dir (Suc k) (out @ b)) = None"
      using Suc.prems(1) kn by (subst (asm) mergeLoop.simps) simp
    show ?thesis
    proof (cases "j = k")
      case True
      then show ?thesis using Some by simp
    next
      case False
      then have "Suc k \<le> j" using Suc.prems(2) by simp
      moreover have "d = n - Suc k" using Suc.hyps(2) by simp
      ultimately show ?thesis using Suc.hyps(1)[of "Suc k" "out @ b"] nxt Suc.prems(3) by simp
    qed
  qed
qed

lemma mergeLoop_success:
  assumes "fst (mergeLoop (js_nat n) dir 0 []) = None"
  shows "mergeLoop (js_nat n) dir 0 [] = (None, concat (map (\<lambda>j. the (dir (of_nat j))) [0..<n]))"
proof -
  have "\<And>j. j < n \<Longrightarrow> dir (of_nat j) = Some (the (dir (of_nat j)))"
    using mergeLoop_present[OF assms] by simp
  from mergeLoop_all_present[where f = "\<lambda>j. the (dir (of_nat j))" and n = n and dir = dir
      and k = 0 and out = "[]", OF this]
  show ?thesis by simp
qed

lemma merged_catalog:
  assumes own: "uploadId s = uid" and look: "lookupSession uid w = Some (s, w1)"
    and acc: "handle (UploadChunk now e uid (Num i) (Some b)) w
                 = (ChunkAccepted u i' n tc True (Some fname), w')"
    and new: "map_of (final w) fname = None"
  shows "mset (catalog w') =
           add_mset \<lparr>name = fname,
                     sizeBytes = sum_list (map (\<lambda>j. length (the (((chunkFiles uid w)(i \<mapsto> b)) (of_nat j)))) [0..<n]),
                     modifiedAt = now\<rparr> (mset (catalog w))"
proof -
  have f: "fst (uploadChunk now e uid (Num i) (Some b) w) = ChunkAccepted u i' n tc True (Some fname)"
    using acc handle_fst[of "UploadChunk now e uid (Num i) (Some b)" w] by simp
  then have "handle (UploadChunk now e uid (Num i) (Some b)) w = uploadChunk now e uid (Num i) (Some b) w"
    by (intro handle_chunk) simp
  then have up: "uploadChunk now e uid (Num i) (Some b) w = (ChunkAccepted u i' n tc True (Some fname), w')"
    using acc by simp
  have i0: "0 \<le> i"
  proof (rule ccontr)
    assume "\<not> 0 \<le> i"
    then have "\<not> (\<exists>b' j. Some b = Some b' \<and> Num i = Num j \<and> 0 \<le> j)" by simp
    from uploadChunk_invalid[OF this, of now e uid w] up show False by simp
  qed
  note w1 = lookupSession_SomeD[OF look]
  let ?rc' = "recordChunk i (receivedChunks s)"
  let ?s' = "s\<lparr>receivedChunks := ?rc'\<rparr>"
  let ?w3 = "(writeChunk uid i b w1)\<lparr>sessions := (sessions w1)(uid \<mapsto> ?s')\<rparr>"
  have eq: "js_nat (length ?rc') = totalChunks s"
  proof (rule ccontr)
    assume "\<not> ?thesis"
    from uploadChunk_incomplete[OF look i0 refl this, of now e b] up show False by simp
  qed
  note step = uploadChunk_merging[OF look i0 refl eq refl, of now e b]
  obtain f where res: "fst (mergeChunks now e ?s' ?w3) = Inr f"
    using up unfolding step by (cases "fst (mergeChunks now e ?s' ?w3)") auto
  have n: "n = length ?rc'" and fn: "fname = f"
    and w': "w' = (snd (mergeChunks now e ?s' ?w3))
                    \<lparr>tmp := (tmp (snd (mergeChunks now e ?s' ?w3)))(uid := None),
                     sessions := (sessions (snd (mergeChunks now e ?s' ?w3)))(uid := None)\<rparr>"
  proof -
    have "ChunkAccepted uid i (length ?rc') (totalChunks s) True (Some f)
            = ChunkAccepted u i' n tc True (Some fname) \<and>
          (snd (mergeChunks now e ?s' ?w3))
                    \<lparr>tmp := (tmp (snd (mergeChunks now e ?s' ?w3)))(uid := None),
                     sessions := (sessions (snd (mergeChunks now e ?s' ?w3)))(uid := None)\<rparr> = w'"
      using up unfolding step res sum.case prod.inject .
    then show "n = length ?rc'" "fname = f"
      "w' = (snd (mergeChunks now e ?s' ?w3))
                    \<lparr>tmp := (tmp (snd (mergeChunks now e ?s' ?w3)))(uid := None),
                     sessions := (sessions (snd (mergeChunks now e ?s' ?w3)))(uid := None)\<rparr>"
      by auto
  qed
  have dir: "chunkFiles (uploadId ?s') ?w3 = (chunkFiles uid w)(i \<mapsto> b)"
    using own chunkFiles_cong[OF w1(1), of uid] by simp
  have tot: "totalChunks ?s' = js_nat n" using eq n by simp
  have ok: "fst (mergeLoop (js_nat n) ((chunkFiles uid w)(i \<mapsto> b)) 0 []) = None"
    using res unfolding mergeChunks_result dir tot by (auto split: option.splits if_splits)
  have name: "f = artifactName now (originalName s)"
    using res unfolding mergeChunks_result by (auto split: option.splits if_splits)
  let ?out = "concat (map (\<lambda>j. the (((chunkFiles uid w)(i \<mapsto> b)) (of_nat j))) [0..<n])"
  have fin: "final w' = AList.update fname \<lparr>content = ?out, mtime = now\<rparr> (final w)"
  proof -
    have "final w' = final (snd (mergeChunks now e ?s' ?w3))" unfolding w' by simp
    also have "\<dots> = AList.update (artifactName now (originalName ?s'))
                 \<lparr>content = snd (mergeLoop (totalChunks ?s') (chunkFiles (uploadId ?s') ?w3) 0 []),
                  mtime = now\<rparr> (final ?w3)"
      by (rule mergeChunks_final)
    also have "\<dots> = AList.update fname \<lparr>content = ?out, mtime = now\<rparr> (final w)"
      unfolding dir tot mergeLoop_success[OF ok] using w1(2) name fn by simp
    finally show ?thesis .
  qed
  have fin': "final w' = final w @ [(fname, \<lparr>content = ?out, mtime = now\<rparr>)]"
    unfolding fin by (rule update_absent[OF new])
  have len: "length ?out = sum_list (map (\<lambda>j. length (the (((chunkFiles uid w)(i \<mapsto> b)) (of_nat j)))) [0..<n])"
    by (simp add: length_concat comp_def)
  from catalog_new_file[OF fin'] len show ?thesis by simp
qed

text \<open>
  Claim C9, amended: the listing changes nothing and returns one entry (name, size,
  modification time) per file of the output area, later modification first. In every
  world the server reaches from its start: a chunk request answered with
  \<open>complete = true\<close> and an artifact name that was not in the output area adds
  exactly one entry to the listing, with the name returned, the time of the merge and
  the total size of the chunk files \<open>0..N-1\<close> the merge has copied; and a live stream
  whose artifact name was not in the output area at its init and which is left alone
  until its finish (see \<open>undisturbed\<close>) has no entry of its name before the init and
  exactly one after the finish, with the name and the \<open>bytesWritten\<close> that the finish
  returns.
\<close>

theorem catalog_lists_output_area:
  "fst (listFiles w) = FileList (catalog w) \<and> snd (listFiles w) = w \<and>
   mset (catalog w) = mset (map statEntry (final w)) \<and>
   sorted_wrt (\<lambda>a b. modifiedAt b \<le> modifiedAt a) (catalog w) \<and>
   (w = snd (run rs0 emptyWorld) \<and>
    handle (UploadChunk now e uid (Num i) (Some b)) w
      = (ChunkAccepted u i' n tc True (Some fname), w') \<and>
    map_of (final w) fname = None \<longrightarrow>
      mset (catalog w') =
        add_mset \<lparr>name = fname,
                  sizeBytes = sum_list (map (\<lambda>j. length (the (((chunkFiles uid w)(i \<mapsto> b)) (of_nat j)))) [0..<n]),
                  modifiedAt = now\<rparr> (mset (catalog w))) \<and>
   (w = snd (run rs0 emptyWorld) \<and> map_of (final w) (liveName t fn) = None \<and>
    undisturbed (liveName t fn) sid rs (snd (handle (StreamInit t sid fn mime) w)) \<longrightarrow>
      filter (\<lambda>x. name x = liveName t fn) (catalog w) = [] \<and>
      last (fst (run (liveRequests t sid fn mime rs) w))
        = StreamFinished sid (liveName t fn)
            (sum_list (map (\<lambda>p. length (snd p)) (ownChunks sid rs))) (length (ownChunks sid rs)) \<and>
      filter (\<lambda>x. name x = liveName t fn) (catalog (snd (run (liveRequests t sid fn mime rs) w)))
        = [\<lparr>name = liveName t fn,
            sizeBytes = sum_list (map (\<lambda>p. length (snd p)) (ownChunks sid rs)),
            modifiedAt = last (t # map fst (ownChunks sid rs))\<rparr>])"
proof -
  have a: "fst (listFiles w) = FileList (catalog w)" by (simp add: catalog_def listFiles_def)
  have b: "snd (listFiles w) = w" by (simp add: listFiles_def)
  have c: "mset (catalog w) = mset (map statEntry (final w))"
    unfolding catalog_eq by (rule mset_sortDesc)
  have d: "sorted_wrt (\<lambda>a b. modifiedAt b \<le> modifiedAt a) (catalog w)"
    unfolding catalog_eq by (rule sorted_sortDesc)
  have m: "w = snd (run rs0 emptyWorld) \<and>
    handle (UploadChunk now e uid (Num i) (Some b)) w
      = (ChunkAccepted u i' n tc True (Some fname), w') \<and>
    map_of (final w) fname = None \<longrightarrow>
      mset (catalog w') =
        add_mset \<lparr>name = fname,
                  sizeBytes = sum_list (map (\<lambda>j. length (the (((chunkFiles uid w)(i \<mapsto> b)) (of_nat j)))) [0..<n]),
                  modifiedAt = now\<rparr> (mset (catalog w))"
  proof (intro impI, elim conjE)
    assume reach: "w = snd (run rs0 emptyWorld)"
      and acc: "handle (UploadChunk now e uid (Num i) (Some b)) w
                  = (ChunkAccepted u i' n tc True (Some fname), w')"
      and new: "map_of (final w) fname = None"
    have f: "fst (uploadChunk now e uid (Num i) (Some b) w) = ChunkAccepted u i' n tc True (Some fname)"
      using acc handle_fst[of "UploadChunk now e uid (Num i) (Some b)" w] by simp
    have "lookupSession uid w \<noteq> None"
    proof
      assume none: "lookupSession uid w = None"
      show False
      proof (cases "0 \<le> i")
        case True
        from uploadChunk_unknown[OF none True, of now e b] f show False by simp
      next
        case False
        then have "\<not> (\<exists>b' j. Some b = Some b' \<and> Num i = Num j \<and> 0 \<le> j)" by simp
        from uploadChunk_invalid[OF this, of now e uid w] f show False by simp
      qed
    qed
    then obtain s w1 where look: "lookupSession uid w = Some (s, w1)" by auto
    have "receivedStaged uid w" using reach by (rule run_receivedStaged_start)
    then have own: "uploadId s = uid" unfolding receivedStaged_def look by simp
    show "mset (catalog w') =
        add_mset \<lparr>name = fname,
                  sizeBytes = sum_list (map (\<lambda>j. length (the (((chunkFiles uid w)(i \<mapsto> b)) (of_nat j)))) [0..<n]),
                  modifiedAt = now\<rparr> (mset (catalog w))"
      by (rule merged_catalog[OF own look acc new])
  qed
  have l: "w = snd (run rs0 emptyWorld) \<and> map_of (final w) (liveName t fn) = None \<and>
    undisturbed (liveName t fn) sid rs (snd (handle (StreamInit t sid fn mime) w)) \<longrightarrow>
      filter (\<lambda>x. name x = liveName t fn) (catalog w) = [] \<and>
      last (fst (run (liveRequests t sid fn mime rs) w))
        = StreamFinished sid (liveName t fn)
            (sum_list (map (\<lambda>p. length (snd p)) (ownChunks sid rs))) (length (ownChunks sid rs)) \<and>
      filter (\<lambda>x. name x = liveName t fn) (catalog (snd (run (liveRequests t sid fn mime rs) w)))
        = [\<lparr>name = liveName t fn,
            sizeBytes = sum_list (map (\<lambda>p. length (snd p)) (ownChunks sid rs)),
            modifiedAt = last (t # map fst (ownChunks sid rs))\<rparr>]"
  proof (intro impI, elim conjE)
    assume reach: "w = snd (run rs0 emptyWorld)"
      and fresh: "map_of (final w) (liveName t fn) = None"
      and quiet: "undisturbed (liveName t fn) sid rs (snd (handle (StreamInit t sid fn mime) w))"
    note run = live_run[OF fresh quiet]
    have len: "length (concat (map snd (ownChunks sid rs)))
               = sum_list (map (\<lambda>p. length (snd p)) (ownChunks sid rs))"
      by (simp add: length_concat comp_def)
    have dist: "distinct (map fst (final (snd (run (liveRequests t sid fn mime rs) w))))"
      by (rule run_distinct_final) (rule reachable_distinct_final[OF reach])
    have x: "filter (\<lambda>x. name x = liveName t fn) (catalog w) = []"
      by (rule catalog_absent[OF fresh])
    have y: "last (fst (run (liveRequests t sid fn mime rs) w))
        = StreamFinished sid (liveName t fn)
            (sum_list (map (\<lambda>p. length (snd p)) (ownChunks sid rs))) (length (ownChunks sid rs))"
      unfolding run(1) using len by simp
    have z: "filter (\<lambda>x. name x = liveName t fn) (catalog (snd (run (liveRequests t sid fn mime rs) w)))
        = [\<lparr>name = liveName t fn,
            sizeBytes = sum_list (map (\<lambda>p. length (snd p)) (ownChunks sid rs)),
            modifiedAt = last (t # map fst (ownChunks sid rs))\<rparr>]"
      using catalog_named[OF dist run(4)] len by (simp del: last.simps)
    show "filter (\<lambda>x. name x = liveName t fn) (catalog w) = [] \<and>
      last (fst (run (liveRequests t sid fn mime rs) w))
        = StreamFinished sid (liveName t fn)
            (sum_list (map (\<lambda>p. length (snd p)) (ownChunks sid rs))) (length (ownChunks sid rs)) \<and>
      filter (\<lambda>x. name x = liveName t fn) (catalog (snd (run (liveRequests t sid fn mime rs) w)))
        = [\<lparr>name = liveName t fn,
            sizeBytes = sum_list (map (\<lambda>p. length (snd p)) (ownChunks sid rs)),
            modifiedAt = last (t # map fst (ownChunks sid rs))\<rparr>]"
      by (rule conjI[OF x conjI[OF y z]])
  qed
  show ?thesis by (rule conjI[OF a conjI[OF b conjI[OF c conjI[OF d conjI[OF m l]]]]])
qed

text \<open>
  Claim C9, amended, on the single-chunk upload merged at millisecond 7 and on the
  live stream \<open>s1\<close> that appends \<open>AB\<close> and \<open>C\<close> among other requests.
\<close>

theorem catalog_lists_output_area_witness:
  "oneWorld = snd (run [UploadInit 100 ''u1'' (Some ''a'') None (Some (js_nat 1)) None] emptyWorld) \<and>
   handle (UploadChunk 7 False ''u1'' (Num 0) (Some ''X'')) oneWorld
     = (ChunkAccepted ''u1'' 0 1 (js_nat 1) True (Some ''7-a''), twinWorld1) \<and>
   map_of (final oneWorld) ''7-a'' = None \<and>
   mset (catalog twinWorld1) = {#\<lparr>name = ''7-a'', sizeBytes = 1, modifiedAt = 7\<rparr>#} \<and>
   emptyWorld = snd (run [] emptyWorld) \<and>
   map_of (final emptyWorld) (liveName 5 None) = None \<and>
   undisturbed (liveName 5 None) ''s1'' mixedRequests (snd (handle (StreamInit 5 ''s1'' None None) emptyWorld)) \<and>
   filter (\<lambda>x. name x = ''5-live.webm'')
       (catalog (snd (run (liveRequests 5 ''s1'' None None mixedRequests) emptyWorld)))
     = [\<lparr>name = ''5-live.webm'', sizeBytes = 3, modifiedAt = 8\<rparr>]"
proof -
  have reach1: "oneWorld = snd (run [UploadInit 100 ''u1'' (Some ''a'') None (Some (js_nat 1)) None] emptyWorld)"
    by (simp add: oneWorld_def run_Cons handle_snd uploadInit_def Let_def)
  have acc: "handle (UploadChunk 7 False ''u1'' (Num 0) (Some ''X'')) oneWorld
     = (ChunkAccepted ''u1'' 0 1 (js_nat 1) True (Some ''7-a''), twinWorld1)"
    using handle_chunk[of 7 False "''u1''" "Num 0" "Some ''X''" oneWorld] twin1(1) by simp
  have new: "map_of (final oneWorld) ''7-a'' = None" by (simp add: final_oneWorld)
  have cat0: "catalog oneWorld = []" by (simp add: catalog_eq final_oneWorld sortDesc_def)
  have cf: "chunkFiles ''u1'' oneWorld = Map.empty"
    by (simp add: oneWorld_def uploadInit_def Let_def emptyWorld_def chunkFiles_def
          writeSessionMeta_def mkdirSession_def)
  have reach2: "emptyWorld = snd (run [] emptyWorld)" by simp
  have fresh: "map_of (final emptyWorld) (liveName 5 None) = None" by (simp add: emptyWorld_def)
  have quiet: "undisturbed (liveName 5 None) ''s1'' mixedRequests
                 (snd (handle (StreamInit 5 ''s1'' None None) emptyWorld))"
    unfolding liveName5 by (rule mixed_undisturbed)
  have one: "[0..<1] = [0::nat]" by simp
  show ?thesis
    using catalog_lists_output_area[of oneWorld
        "[UploadInit 100 ''u1'' (Some ''a'') None (Some (js_nat 1)) None]"
        7 False "''u1''" 0 "''X''" "''u1''" 0 1 "js_nat 1" "''7-a''" twinWorld1]
      catalog_lists_output_area[where w = emptyWorld and ?rs0.0 = "[]" and t = 5 and fn = None
        and sid = "''s1''" and rs = mixedRequests and mime = None]
      reach1 acc new fresh quiet
    by (simp add: cat0 cf one liveName5 mixed_own)
qed

text \<open>
  Claim C9, as stated, fails. A merge whose artifact name is already in the output
  area (same file name, same millisecond) truncates that file: the listing had one
  entry before this successful merge and has one entry after it, no new entry. And of
  two live streams that share a file, the finish of stream \<open>a\<close> returns
  \<open>bytesWritten = 1\<close> while the entry of its artifact has the size 2.
\<close>

theorem overwritten_artifact_is_no_new_entry:
  "fst (listFiles twinWorld2) = FileList [\<lparr>name = ''7-a'', sizeBytes = 1, modifiedAt = 7\<rparr>] \<and>
   fst (uploadChunk 7 False ''u2'' (Num 0) (Some ''YY'') twinWorld2)
     = ChunkAccepted ''u2'' 0 1 (js_nat 1) True (Some ''7-a'') \<and>
   fst (listFiles (snd (uploadChunk 7 False ''u2'' (Num 0) (Some ''YY'') twinWorld2)))
     = FileList [\<lparr>name = ''7-a'', sizeBytes = 2, modifiedAt = 7\<rparr>] \<and>
   fst (streamFinish False ''a'' crossWorld) = StreamFinished ''a'' ''5-live.webm'' 1 1 \<and>
   fst (listFiles (snd (streamFinish False ''a'' crossWorld)))
     = FileList [\<lparr>name = ''5-live.webm'', sizeBytes = 2, modifiedAt = 7\<rparr>]"
  using single_chunk_upload[OF twin2(1), of 7 "''YY''"] streamFinish_live[OF cross_facts(3)]
  by (simp add: listFiles_def sortDesc_def statEntry_def twin2(2) oneSession_def name7a cross_facts(1))

end
